theory Spec2Isabelle
  imports Complex_Main "HOL-Library.Sublist" "HOL-Library.Log_Nat"
begin

text \<open>
  The windowed linear-regression estimate of the compound annual growth rate of
  \<open>portfolio-analysis\<close>: \<open>getWindows\<close> (\<open>src/getWindows.mjs\<close>) cuts a dated series into
  overlapping windows, and \<open>getLinearRegressionCAGR\<close> (\<open>src/getLinearRegressionCAGR.mjs\<close>)
  fits a line to each window and averages the implied yearly rates. Both are embedded
  as functions of the engine's built-in conversions, the object store and their
  arguments that return either an error or a result; the statements C1 to C10 about them
  follow the definitions and the auxiliary lemmas.
\<close>

section \<open>Numbers\<close>

text \<open>
  A JavaScript Number is an IEEE-754 double: a real that \<open>binary64\<close> leaves unchanged, one
  of the two infinities, or \<open>NaN\<close>. Every arithmetic operation computes the exact real
  result and rounds it with \<open>binary64\<close>: to the nearest double, ties to the even
  significand, with gradual underflow below \<open>2^-1022\<close> and overflow to an infinity from
  \<open>2^1024\<close>. The sign of zero is not modelled (a quotient by zero takes the sign of the
  dividend).
\<close>

datatype jsnum = Fin real | PInf | NInf | NaN

definition signed_inf :: "bool \<Rightarrow> jsnum" where
  "signed_inf positive = (if positive then PInf else NInf)"

text \<open>For \<open>x > 0\<close>, the exponent \<open>e\<close> with \<open>2^e <= x < 2^(e+1)\<close>.\<close>

definition exponentOf :: "real \<Rightarrow> int" where
  "exponentOf x = (if 1 \<le> x then bitlen \<lfloor>x\<rfloor> - 1 else - bitlen (\<lceil>1 / x\<rceil> - 1))"

definition roundHalfEven :: "real \<Rightarrow> int" where
  "roundHalfEven q =
     (let f = \<lfloor>q\<rfloor>; d = q - of_int f
      in if d < 1 / 2 then f else if 1 / 2 < d then f + 1 else if even f then f else f + 1)"

definition binary64 :: "real \<Rightarrow> jsnum" where
  "binary64 x =
     (if x = 0 then Fin 0
      else
        (let e = max (exponentOf \<bar>x\<bar>) (- 1022);
             u = 2 powi (e - 52);
             y = of_int (roundHalfEven (x / u)) * u
         in if 2 ^ 1024 \<le> \<bar>y\<bar> then signed_inf (0 < x) else Fin y))"

fun js_neg :: "jsnum \<Rightarrow> jsnum" where
  "js_neg (Fin a) = Fin (- a)"
| "js_neg PInf = NInf"
| "js_neg NInf = PInf"
| "js_neg NaN = NaN"

fun js_add :: "jsnum \<Rightarrow> jsnum \<Rightarrow> jsnum" where
  "js_add (Fin a) (Fin b) = binary64 (a + b)"
| "js_add NaN b = NaN"
| "js_add a NaN = NaN"
| "js_add PInf NInf = NaN"
| "js_add NInf PInf = NaN"
| "js_add PInf b = PInf"
| "js_add NInf b = NInf"
| "js_add (Fin a) b = b"

definition js_sub :: "jsnum \<Rightarrow> jsnum \<Rightarrow> jsnum" where
  "js_sub a b = js_add a (js_neg b)"

fun js_mul :: "jsnum \<Rightarrow> jsnum \<Rightarrow> jsnum" where
  "js_mul (Fin a) (Fin b) = binary64 (a * b)"
| "js_mul NaN b = NaN"
| "js_mul a NaN = NaN"
| "js_mul (Fin a) PInf = (if a = 0 then NaN else signed_inf (0 < a))"
| "js_mul (Fin a) NInf = (if a = 0 then NaN else signed_inf (a < 0))"
| "js_mul PInf (Fin b) = (if b = 0 then NaN else signed_inf (0 < b))"
| "js_mul NInf (Fin b) = (if b = 0 then NaN else signed_inf (b < 0))"
| "js_mul PInf PInf = PInf"
| "js_mul NInf NInf = PInf"
| "js_mul PInf NInf = NInf"
| "js_mul NInf PInf = NInf"

fun js_div :: "jsnum \<Rightarrow> jsnum \<Rightarrow> jsnum" where
  "js_div (Fin a) (Fin b) =
     (if b \<noteq> 0 then binary64 (a / b) else if a = 0 then NaN else signed_inf (0 < a))"
| "js_div NaN b = NaN"
| "js_div a NaN = NaN"
| "js_div (Fin a) b = Fin 0"
| "js_div PInf (Fin b) = signed_inf (0 \<le> b)"
| "js_div NInf (Fin b) = signed_inf (b < 0)"
| "js_div a b = NaN"

fun js_le :: "jsnum \<Rightarrow> jsnum \<Rightarrow> bool" where
  "js_le (Fin a) (Fin b) = (a \<le> b)"
| "js_le NaN b = False"
| "js_le a NaN = False"
| "js_le NInf b = True"
| "js_le a PInf = True"
| "js_le a b = False"

fun js_lt :: "jsnum \<Rightarrow> jsnum \<Rightarrow> bool" where
  "js_lt (Fin a) (Fin b) = (a < b)"
| "js_lt NaN b = False"
| "js_lt a NaN = False"
| "js_lt PInf b = False"
| "js_lt a NInf = False"
| "js_lt a b = True"

definition js_ge :: "jsnum \<Rightarrow> jsnum \<Rightarrow> bool" where
  "js_ge a b = js_le b a"

fun isNaN :: "jsnum \<Rightarrow> bool" where
  "isNaN NaN = True"
| "isNaN a = False"

fun Math_ceil :: "jsnum \<Rightarrow> jsnum" where
  "Math_ceil (Fin a) = Fin (of_int \<lceil>a\<rceil>)"
| "Math_ceil a = a"

text \<open>
  \<open>Array.from({ length: n }, ...)\<close> reads the length of its array-like argument: \<open>NaN\<close> and
  everything below 1 give 0; a length above \<open>2^32 - 1\<close>, finite or not, has no array and
  the engine raises a \<open>RangeError\<close>.
\<close>

fun toLength :: "jsnum \<Rightarrow> nat option" where
  "toLength (Fin a) = (if a < 2 ^ 32 then Some (nat \<lfloor>a\<rfloor>) else None)"
| "toLength PInf = None"
| "toLength NInf = Some 0"
| "toLength NaN = Some 0"

section \<open>Values and the object store\<close>

text \<open>
  Primitive values are immediate; plain objects and \<open>Date\<close> objects live in a store and
  are referred to by address, so two records with equal fields are still told apart, and
  an object may refer to itself. Arrays passed to the functions below are only read, and
  are modelled as immutable sequences of values. A plain object has string-keyed data
  properties and the prototype \<open>Object.prototype\<close>; there are no function values, symbols
  or big integers. A \<open>Date\<close> holds an integral millisecond time value, or none when it is
  an Invalid Date.
\<close>

type_synonym addr = nat

datatype jsval =
    Undefined
  | Null
  | Bool bool
  | Num jsnum
  | Str string
  | Ref addr
  | Arr "jsval list"

datatype hobj =
    DateObj "int option"
  | Object "(string \<times> jsval) list"

type_synonym heap = "hobj list"

definition deref :: "heap \<Rightarrow> addr \<Rightarrow> hobj option" where
  "deref h a = (if a < length h then Some (h ! a) else None)"

datatype error =
    DataError jsval
  | WindowSizeError jsval
  | OverlapError jsval jsval
  | NotAnArrayError jsval
  | ItemTypeError string "jsval list"
  | LengthMismatchError nat nat
  | TypeError
  | RangeError

fun typeof :: "jsval \<Rightarrow> string" where
  "typeof Undefined = ''undefined''"
| "typeof Null = ''object''"
| "typeof (Bool b) = ''boolean''"
| "typeof (Num n) = ''number''"
| "typeof (Str s) = ''string''"
| "typeof (Ref a) = ''object''"
| "typeof (Arr xs) = ''object''"

text \<open>
  Reading the property \<open>value\<close> or \<open>date\<close> of a value: \<open>undefined\<close> and \<open>null\<close> raise a
  \<open>TypeError\<close>, a plain object yields the field or \<open>undefined\<close>, and every other value
  (a primitive, an array, a \<open>Date\<close>) has neither property.
\<close>

fun getProp :: "heap \<Rightarrow> jsval \<Rightarrow> string \<Rightarrow> error + jsval" where
  "getProp h Undefined k = Inl TypeError"
| "getProp h Null k = Inl TypeError"
| "getProp h (Ref a) k =
     (case deref h a of
        Some (Object fs) \<Rightarrow> (case map_of fs k of Some v \<Rightarrow> Inr v | None \<Rightarrow> Inr Undefined)
      | _ \<Rightarrow> Inr Undefined)"
| "getProp h v k = Inr Undefined"

fun instanceofDate :: "heap \<Rightarrow> jsval \<Rightarrow> bool" where
  "instanceofDate h (Ref a) = (case deref h a of Some (DateObj t) \<Rightarrow> True | _ \<Rightarrow> False)"
| "instanceofDate h v = False"

text \<open>\<open>Date.prototype.getTime\<close>. A time value beyond 8.64e15 ms does not exist: the \<open>Date\<close>
  constructor clips it to an Invalid Date.\<close>

fun getTime :: "int option \<Rightarrow> jsnum" where
  "getTime (Some t) = (if \<bar>t\<bar> \<le> 8640000000000000 then Fin (of_int t) else NaN)"
| "getTime None = NaN"

subsection \<open>Conversions\<close>

text \<open>
  The conversions that the engine applies implicitly. Three built-ins are parameters of
  the model: how a string is read as a Number, how a Number is printed, and how a \<open>Date\<close>
  is printed.
\<close>

record engine =
  stringToNumber :: "string \<Rightarrow> jsnum"
  numberToString :: "jsnum \<Rightarrow> string"
  dateToString :: "int option \<Rightarrow> string"

text \<open>
  \<open>ToString\<close>, as applied by a template literal and by \<open>Array.prototype.join\<close>. A plain
  object prints as \<open>[object Object]\<close> through \<open>Object.prototype.toString\<close>; if it has a
  property \<open>toString\<close> of its own, that is not callable, and neither \<open>valueOf\<close> yields a
  primitive, so the conversion raises a \<open>TypeError\<close>. An array joins its elements with
  commas, \<open>undefined\<close> and \<open>null\<close> printing as nothing.
\<close>

fun toStr :: "engine \<Rightarrow> heap \<Rightarrow> jsval \<Rightarrow> error + string"
  and joinStr :: "engine \<Rightarrow> heap \<Rightarrow> jsval list \<Rightarrow> error + string" where
  "toStr eng h Undefined = Inr ''undefined''"
| "toStr eng h Null = Inr ''null''"
| "toStr eng h (Bool b) = Inr (if b then ''true'' else ''false'')"
| "toStr eng h (Num n) = Inr (numberToString eng n)"
| "toStr eng h (Str s) = Inr s"
| "toStr eng h (Ref a) =
     (case deref h a of
        Some (Object fs) \<Rightarrow>
          (if map_of fs ''toString'' = None then Inr ''[object Object]'' else Inl TypeError)
      | Some (DateObj t) \<Rightarrow> Inr (dateToString eng t)
      | None \<Rightarrow> Inr ''[object Object]'')"
| "toStr eng h (Arr xs) = joinStr eng h xs"
| "joinStr eng h [] = Inr []"
| "joinStr eng h (x # xs) =
     (case (if x = Undefined \<or> x = Null then Inr [] else toStr eng h x) of
        Inl e \<Rightarrow> Inl e
      | Inr s \<Rightarrow>
          (case joinStr eng h xs of
             Inl e \<Rightarrow> Inl e
           | Inr rest \<Rightarrow> Inr (if xs = [] then s else s @ '','' @ rest)))"

text \<open>
  \<open>ToNumber\<close>, as applied by \<open>>=\<close> and \<open>-\<close> to an operand that faces a Number. A \<open>Date\<close>
  converts to its time value; a plain object and an array convert through their string.
\<close>

definition toNumber :: "engine \<Rightarrow> heap \<Rightarrow> jsval \<Rightarrow> error + jsnum" where
  "toNumber eng h v =
     (case v of
        Undefined \<Rightarrow> Inr NaN
      | Null \<Rightarrow> Inr (Fin 0)
      | Bool b \<Rightarrow> Inr (Fin (if b then 1 else 0))
      | Num n \<Rightarrow> Inr n
      | Str s \<Rightarrow> Inr (stringToNumber eng s)
      | Ref a \<Rightarrow>
          (case deref h a of
             Some (DateObj t) \<Rightarrow> Inr (getTime t)
           | _ \<Rightarrow> (case toStr eng h v of
                     Inl e \<Rightarrow> Inl e
                   | Inr s \<Rightarrow> Inr (stringToNumber eng s)))
      | Arr xs \<Rightarrow>
          (case toStr eng h v of
             Inl e \<Rightarrow> Inl e
           | Inr s \<Rightarrow> Inr (stringToNumber eng s)))"

text \<open>
  Whether \<open>JSON.stringify\<close> returns: it raises a \<open>TypeError\<close> exactly when it meets an
  object again while serialising it. A nesting of more objects than the store holds
  repeats one of them, so the depth of the descent is bounded by the size of the store.
\<close>

fun jsonDepth :: "nat \<Rightarrow> heap \<Rightarrow> jsval \<Rightarrow> bool" where
  "jsonDepth k h (Arr xs) = list_all (jsonDepth k h) xs"
| "jsonDepth k h (Ref a) =
     (case deref h a of
        Some (Object fs) \<Rightarrow>
          (case k of
             0 \<Rightarrow> False
           | Suc k' \<Rightarrow> list_all (\<lambda>field. jsonDepth k' h (snd field)) fs)
      | _ \<Rightarrow> True)"
| "jsonDepth k h v = True"

definition JSON_stringify_returns :: "heap \<Rightarrow> jsval \<Rightarrow> bool" where
  "JSON_stringify_returns h v = jsonDepth (length h) h v"

section \<open>getWindows.mjs\<close>

text \<open>\<open>Array.prototype.every\<close> with a callback that may raise: stops at the first
  element that raises or fails.\<close>

fun every :: "('a \<Rightarrow> error + bool) \<Rightarrow> 'a list \<Rightarrow> error + bool" where
  "every p [] = Inr True"
| "every p (x # xs) =
     (case p x of
        Inl e \<Rightarrow> Inl e
      | Inr ok \<Rightarrow> if ok then every p xs else Inr False)"

text \<open>The callback of line 15--17:
  \<open>typeof item.value === 'number' && item.date instanceof Date\<close>.\<close>

definition itemValid :: "heap \<Rightarrow> jsval \<Rightarrow> error + bool" where
  "itemValid h item =
     (case getProp h item ''value'' of
        Inl e \<Rightarrow> Inl e
      | Inr v \<Rightarrow>
          if typeof v = ''number''
          then (case getProp h item ''date'' of
                  Inl e \<Rightarrow> Inl e
                | Inr d \<Rightarrow> Inr (instanceofDate h d))
          else Inr False)"

text \<open>
  \<open>item.date.getTime()\<close> and \<open>item.value\<close> for an element that passed the check above.
  The remaining branches cannot be reached after validation (lemma \<open>itemValid_shape\<close>
  below); they are given the value \<open>NaN\<close>.
\<close>

definition itemTime :: "heap \<Rightarrow> jsval \<Rightarrow> jsnum" where
  "itemTime h item =
     (case getProp h item ''date'' of
        Inr (Ref d) \<Rightarrow> (case deref h d of Some (DateObj t) \<Rightarrow> getTime t | _ \<Rightarrow> NaN)
      | _ \<Rightarrow> NaN)"

definition itemValue :: "heap \<Rightarrow> jsval \<Rightarrow> jsnum" where
  "itemValue h item =
     (case getProp h item ''value'' of Inr (Num n) \<Rightarrow> n | _ \<Rightarrow> NaN)"

text \<open>Lines 33--36: the bounds of window \<open>index\<close> and the filter that fills it.\<close>

definition windowStart :: "nat \<Rightarrow> jsnum \<Rightarrow> jsnum" where
  "windowStart index segmentBaseLength = js_mul (Fin (of_nat index)) segmentBaseLength"

definition windowEnd :: "nat \<Rightarrow> jsnum \<Rightarrow> jsnum \<Rightarrow> jsnum" where
  "windowEnd index segmentBaseLength windowSizeInMs =
     js_add (windowStart index segmentBaseLength) windowSizeInMs"

definition inWindow :: "heap \<Rightarrow> jsnum \<Rightarrow> jsnum \<Rightarrow> jsnum \<Rightarrow> jsval \<Rightarrow> bool" where
  "inWindow h startTime start end item =
     (js_ge (js_sub (itemTime h item) startTime) start
      \<and> js_lt (js_sub (itemTime h item) startTime) end)"

text \<open>Lines 27--37, for a validated array and the numeric value of the overlap.
  \<open>data.at(0)\<close> is \<open>undefined\<close> on an empty array, and reading its \<open>date\<close> raises;
  \<open>Array.from\<close> raises when the number of windows is no array length.\<close>

definition amountOfWindows :: "heap \<Rightarrow> jsval list \<Rightarrow> jsnum \<Rightarrow> jsnum \<Rightarrow> jsnum" where
  "amountOfWindows h items windowSizeInMs overlapInMs =
     (let startTime = itemTime h (hd items);
          timeSeriesDuration = js_sub (itemTime h (last items)) startTime;
          segmentBaseLength = js_sub windowSizeInMs overlapInMs
      in Math_ceil (js_div timeSeriesDuration segmentBaseLength))"

definition makeWindows :: "heap \<Rightarrow> jsval list \<Rightarrow> jsnum \<Rightarrow> jsnum \<Rightarrow> error + jsval list list" where
  "makeWindows h items windowSizeInMs overlapInMs =
     (case items of
        [] \<Rightarrow> Inl TypeError
      | first # rest \<Rightarrow>
          (let startTime = itemTime h first;
               segmentBaseLength = js_sub windowSizeInMs overlapInMs
           in case toLength (amountOfWindows h items windowSizeInMs overlapInMs) of
                None \<Rightarrow> Inl RangeError
              | Some n \<Rightarrow>
                  Inr (map (\<lambda>index.
                         filter (inWindow h startTime
                                   (windowStart index segmentBaseLength)
                                   (windowEnd index segmentBaseLength windowSizeInMs))
                                items)
                       [0..<n])))"

text \<open>
  The exported function. An absent third argument is \<open>undefined\<close> and takes the default 0;
  any other value is compared and subtracted after conversion to a Number. Each of the
  three errors is constructed from a message: the first serialises \<open>data\<close> with
  \<open>JSON.stringify\<close>, the other two convert their arguments to strings, and a failure of
  that conversion is raised in place of the error.
\<close>

definition getWindows ::
    "engine \<Rightarrow> heap \<Rightarrow> jsval \<Rightarrow> jsval \<Rightarrow> jsval \<Rightarrow> error + jsval list list" where
  "getWindows eng h data windowSizeInMs overlapArg =
     (let overlapInMs = (if overlapArg = Undefined then Num (Fin 0) else overlapArg);
          dataError = (if JSON_stringify_returns h data then Inl (DataError data)
                       else Inl TypeError);
          windowSizeError = (case toStr eng h windowSizeInMs of
                               Inl e \<Rightarrow> Inl e
                             | Inr message \<Rightarrow> Inl (WindowSizeError windowSizeInMs))
      in case data of
           Arr items \<Rightarrow>
             (case every (itemValid h) items of
                Inl e \<Rightarrow> Inl e
              | Inr ok \<Rightarrow>
                  if \<not> ok then dataError
                  else (case windowSizeInMs of
                          Num ws \<Rightarrow>
                            if js_le ws (Fin 0) then windowSizeError
                            else (case toNumber eng h overlapInMs of
                                    Inl e \<Rightarrow> Inl e
                                  | Inr ov \<Rightarrow>
                                      if js_ge ov ws
                                      then (case toStr eng h overlapInMs of
                                              Inl e \<Rightarrow> Inl e
                                            | Inr message \<Rightarrow>
                                                Inl (OverlapError overlapInMs windowSizeInMs))
                                      else makeWindows h items ws ov)
                        | _ \<Rightarrow> windowSizeError))
         | _ \<Rightarrow> dataError)"

section \<open>getLinearRegressionCAGR.mjs\<close>

text \<open>\<open>ensureArray(data, type)\<close> from the helpers: \<open>type\<close> is a type name, or \<open>false\<close>
  (\<open>None\<close>) to skip the check of the elements. Both messages convert what they report to
  a string.\<close>

definition ensureArray :: "engine \<Rightarrow> heap \<Rightarrow> jsval \<Rightarrow> string option \<Rightarrow> error + jsval list" where
  "ensureArray eng h data type =
     (case data of
        Arr items \<Rightarrow>
          (case type of
             None \<Rightarrow> Inr items
           | Some ty \<Rightarrow>
               (let invalidItems = filter (\<lambda>item. typeof item \<noteq> ty) items
                in if invalidItems \<noteq> []
                   then (case joinStr eng h invalidItems of
                           Inl e \<Rightarrow> Inl e
                         | Inr message \<Rightarrow> Inl (ItemTypeError ty invalidItems))
                   else Inr items))
      | _ \<Rightarrow> (case toStr eng h data of
                Inl e \<Rightarrow> Inl e
              | Inr message \<Rightarrow> Inl (NotAnArrayError data)))"

text \<open>Modelled from the spec: \<open>helpers/getTimes.mjs\<close> is not among the sources; its test
  and the spec fix one year at 365 days of milliseconds.\<close>

definition yearInMs :: jsnum where
  "yearInMs = Fin 31536000000"

definition js_sum :: "jsnum list \<Rightarrow> jsnum" where
  "js_sum xs = foldl js_add (Fin 0) xs"

record regression =
  slope :: jsnum
  intercept :: jsnum

text \<open>Modelled from the spec: \<open>SimpleLinearRegression\<close> belongs to the external package
  \<open>ml-regression-simple-linear\<close>. The spec describes it as ordinary least squares over
  paired x/y values, returning the slope and intercept that minimise the squared
  residuals, and \<open>NaN\<close> for both when given fewer than 2 points. The closed form of the
  minimiser is evaluated in the arithmetic above, so that a degenerate x axis gives
  \<open>0 / 0 = NaN\<close>.\<close>

definition SimpleLinearRegression :: "jsnum list \<Rightarrow> jsnum list \<Rightarrow> regression" where
  "SimpleLinearRegression x y =
     (if length x < 2 then \<lparr>slope = NaN, intercept = NaN\<rparr>
      else
        (let n = Fin (of_nat (length x));
             xSum = js_sum x;
             ySum = js_sum y;
             xSquared = js_sum (map (\<lambda>a. js_mul a a) x);
             xY = js_sum (map2 js_mul x y);
             b = js_div (js_sub (js_mul n xY) (js_mul xSum ySum))
                        (js_sub (js_mul n xSquared) (js_mul xSum xSum))
         in \<lparr>slope = b, intercept = js_sub (js_div ySum n) (js_mul b (js_div xSum n))\<rparr>))"

text \<open>Line 22: \<open>data.map((item, index) => ({ value: item, date: dates[index] }))\<close>
  allocates one fresh record per value, after the objects already in the store.\<close>

definition mergedData :: "heap \<Rightarrow> jsval list \<Rightarrow> jsval list \<Rightarrow> heap \<times> jsval list" where
  "mergedData h data dates =
     (h @ map (\<lambda>index. Object [(''value'', data ! index),
                                 (''date'', if index < length dates then dates ! index
                                            else Undefined)])
              [0..<length data],
      map (\<lambda>index. Ref (length h + index)) [0..<length data])"

text \<open>Lines 24--32: the callback that maps a window to \<open>(intercept + slope) / intercept\<close>.
  \<open>window.at(0)\<close> is only read inside the inner callback, hence only for a non-empty
  window.\<close>

definition growthRate :: "heap \<Rightarrow> jsval list \<Rightarrow> jsnum" where
  "growthRate h window =
     (let xValues = (case window of
                       [] \<Rightarrow> []
                     | first # rest \<Rightarrow>
                         map (\<lambda>item. js_div (js_sub (itemTime h item) (itemTime h first))
                                            yearInMs) window);
          yValues = map (itemValue h) window;
          r = SimpleLinearRegression xValues yValues
      in js_div (js_add (intercept r) (slope r)) (intercept r))"

record growthSample =
  rate :: jsnum
  partOfYear :: jsnum

text \<open>Lines 39--43: the weight attached to the rate at position \<open>index\<close> of the filtered
  list; it reads \<open>windows[index]\<close>. \<open>.at(-1)\<close> and \<open>.at(0)\<close> are \<open>undefined\<close> on an empty
  window, and reading \<open>date\<close> from that raises.\<close>

definition withPartOfYear :: "heap \<Rightarrow> jsval list list \<Rightarrow> jsnum \<times> nat \<Rightarrow> error + growthSample" where
  "withPartOfYear h windows ri =
     (case ri of (r, index) \<Rightarrow>
        if index < length windows
        then (case windows ! index of
                [] \<Rightarrow> Inl TypeError
              | first # rest \<Rightarrow>
                  Inr \<lparr>rate = r,
                       partOfYear = js_div (js_sub (itemTime h (last (first # rest)))
                                                   (itemTime h first)) yearInMs\<rparr>)
        else Inl TypeError)"

text \<open>\<open>Array.prototype.map\<close> with a callback that may raise.\<close>

fun mapE :: "('a \<Rightarrow> error + 'b) \<Rightarrow> 'a list \<Rightarrow> error + 'b list" where
  "mapE f [] = Inr []"
| "mapE f (x # xs) =
     (case f x of
        Inl e \<Rightarrow> Inl e
      | Inr y \<Rightarrow> (case mapE f xs of Inl e \<Rightarrow> Inl e | Inr ys \<Rightarrow> Inr (y # ys)))"

text \<open>Lines 24 and 34--43: the rates of all windows; the rates that are not \<open>NaN\<close>, less
  1; and the samples, each rate paired by its position with a weight.\<close>

definition growthRates :: "heap \<Rightarrow> jsval list list \<Rightarrow> jsnum list" where
  "growthRates h windows = map (growthRate h) windows"

definition validRates :: "jsnum list \<Rightarrow> jsnum list" where
  "validRates rates = map (\<lambda>r. js_sub r (Fin 1)) (filter (\<lambda>r. \<not> isNaN r) rates)"

definition validGrowthRates :: "heap \<Rightarrow> jsval list list \<Rightarrow> error + growthSample list" where
  "validGrowthRates h windows =
     (let rates = validRates (growthRates h windows)
      in mapE (withPartOfYear h windows) (zip rates [0..<length rates]))"

text \<open>Lines 44--48: the sum of the weights, and the weighted sum of the rates divided by
  it; both \<open>reduce\<close> calls start from 0.\<close>

definition average :: "growthSample list \<Rightarrow> jsnum" where
  "average samples =
     (let amountOfYears = foldl (\<lambda>sum current. js_add sum (partOfYear current)) (Fin 0) samples
      in js_div (foldl (\<lambda>sum current. js_add sum (js_mul (rate current) (partOfYear current)))
                       (Fin 0) samples)
                amountOfYears)"

text \<open>The exported function, lines 17--49. Both arguments are checked to be arrays (of
  anything) before their lengths are compared.\<close>

definition getLinearRegressionCAGR :: "engine \<Rightarrow> heap \<Rightarrow> jsval \<Rightarrow> jsval \<Rightarrow> error + jsnum" where
  "getLinearRegressionCAGR eng h data dates =
     (case ensureArray eng h data None of
        Inl e \<Rightarrow> Inl e
      | Inr values \<Rightarrow>
          (case ensureArray eng h dates None of
             Inl e \<Rightarrow> Inl e
           | Inr timestamps \<Rightarrow>
               if length values \<noteq> length timestamps
               then Inl (LengthMismatchError (length values) (length timestamps))
               else
                 (case mergedData h values timestamps of (h', merged) \<Rightarrow>
                    (case getWindows eng h' (Arr merged) (Num yearInMs)
                            (Num (js_div yearInMs (Fin 2))) of
                       Inl e \<Rightarrow> Inl e
                     | Inr windows \<Rightarrow>
                         (case validGrowthRates h' windows of
                            Inl e \<Rightarrow> Inl e
                          | Inr samples \<Rightarrow> Inr (average samples))))))"

section \<open>Notions used in the statements\<close>

text \<open>The millisecond time value of a record's date as a real number, the offset of a
  record from the first record of the series, and the span of the series.\<close>

definition timeMs :: "heap \<Rightarrow> jsval \<Rightarrow> real" where
  "timeMs h item = (case itemTime h item of Fin r \<Rightarrow> r | _ \<Rightarrow> 0)"

definition offsetMs :: "heap \<Rightarrow> jsval list \<Rightarrow> jsval \<Rightarrow> real" where
  "offsetMs h items item = timeMs h item - timeMs h (hd items)"

definition totalDuration :: "heap \<Rightarrow> jsval list \<Rightarrow> real" where
  "totalDuration h items = timeMs h (last items) - timeMs h (hd items)"

text \<open>A series that passes the check of lines 14--20 and whose dates are all valid.\<close>

definition validSeries :: "heap \<Rightarrow> jsval list \<Rightarrow> bool" where
  "validSeries h items \<longleftrightarrow>
     every (itemValid h) items = Inr True \<and> list_all (\<lambda>item. \<not> isNaN (itemTime h item)) items"

text \<open>
  Where the engine's arithmetic is exact. Time values are whole milliseconds; when they
  lie within \<open>2^51\<close> ms of the epoch (some 71000 years) and window size and overlap are
  whole numbers of milliseconds of at most that magnitude, every difference, product and
  sum that \<open>getWindows\<close> computes is an integer below \<open>2^53\<close> and hence a double, and the
  one quotient is rounded to a double with the same ceiling.
\<close>

definition isInteger :: "real \<Rightarrow> bool" where
  "isInteger x \<longleftrightarrow> of_int \<lfloor>x\<rfloor> = x"

definition wholeMilliseconds :: "heap \<Rightarrow> jsval list \<Rightarrow> real \<Rightarrow> real \<Rightarrow> bool" where
  "wholeMilliseconds h items w ov \<longleftrightarrow>
     list_all (\<lambda>item. \<bar>timeMs h item\<bar> \<le> 2 ^ 51) items
     \<and> isInteger w \<and> w \<le> 2 ^ 51 \<and> isInteger ov \<and> \<bar>ov\<bar> \<le> 2 ^ 51"

text \<open>The fixture of the repository's test of \<open>getWindows\<close>: six records whose dates
  lie 0, 1, 2, 3, 4 and 8 seconds after 2024-01-01. Each date is stored in front of the
  record that holds it.\<close>

definition secondsData :: heap where
  "secondsData =
     [DateObj (Some 1704067200000), Object [(''date'', Ref 0), (''value'', Num (Fin 1))],
      DateObj (Some 1704067201000), Object [(''date'', Ref 2), (''value'', Num (Fin 1))],
      DateObj (Some 1704067202000), Object [(''date'', Ref 4), (''value'', Num (Fin 1))],
      DateObj (Some 1704067203000), Object [(''date'', Ref 6), (''value'', Num (Fin 1))],
      DateObj (Some 1704067204000), Object [(''date'', Ref 8), (''value'', Num (Fin 1))],
      DateObj (Some 1704067208000), Object [(''date'', Ref 10), (''value'', Num (Fin 1))]]"

definition secondsItems :: "jsval list" where
  "secondsItems = [Ref 1, Ref 3, Ref 5, Ref 7, Ref 9, Ref 11]"

text \<open>A single record; two records whose dates lie exactly one window size (3 seconds)
  apart; and two records whose dates lie one year apart.\<close>

definition singleData :: heap where
  "singleData = [DateObj (Some 1704067200000), Object [(''date'', Ref 0), (''value'', Num (Fin 1))]]"

definition boundaryData :: heap where
  "boundaryData =
     [DateObj (Some 1704067200000), Object [(''date'', Ref 0), (''value'', Num (Fin 1))],
      DateObj (Some 1704067203000), Object [(''date'', Ref 2), (''value'', Num (Fin 1))]]"

definition boundaryItems :: "jsval list" where
  "boundaryItems = [Ref 1, Ref 3]"

definition yearData :: heap where
  "yearData =
     [DateObj (Some 0), Object [(''date'', Ref 0), (''value'', Num (Fin 1))],
      DateObj (Some 31536000000), Object [(''date'', Ref 2), (''value'', Num (Fin 1))]]"

text \<open>A store whose only object holds a reference to itself.\<close>

definition cyclicData :: heap where
  "cyclicData = [Object [(''self'', Ref 0)]]"

text \<open>A series is time-ordered when no record lies before the first or after the last
  one; a series with increasing dates is.\<close>

definition timeOrdered :: "heap \<Rightarrow> jsval list \<Rightarrow> bool" where
  "timeOrdered h items \<longleftrightarrow>
     list_all (\<lambda>item. timeMs h (hd items) \<le> timeMs h item
                      \<and> timeMs h item \<le> timeMs h (last items)) items"

text \<open>The notions of the spec's aggregation: the x axis of a window's regression (elapsed
  time since the window's first record, in years), the fraction of a year that a window
  covers (last minus first time value of that same window, over one year), the retained
  windows (those whose rate is not \<open>NaN\<close>), and the time-weighted average
  \<open>\<Sum>(rate * fractionOfYear) / \<Sum>fractionOfYear\<close> over the retained windows.\<close>

definition elapsedYears :: "heap \<Rightarrow> jsval list \<Rightarrow> jsnum list" where
  "elapsedYears h window =
     map (\<lambda>item. js_div (js_sub (itemTime h item) (itemTime h (hd window))) yearInMs) window"

definition fractionOfYear :: "heap \<Rightarrow> jsval list \<Rightarrow> jsnum" where
  "fractionOfYear h window =
     js_div (js_sub (itemTime h (last window)) (itemTime h (hd window))) yearInMs"

definition retainedWindows :: "heap \<Rightarrow> jsval list list \<Rightarrow> jsval list list" where
  "retainedWindows h windows = filter (\<lambda>window. \<not> isNaN (growthRate h window)) windows"

definition timeWeightedAverage :: "heap \<Rightarrow> jsval list list \<Rightarrow> jsnum" where
  "timeWeightedAverage h windows =
     js_div (js_sum (map (\<lambda>window. js_mul (js_sub (growthRate h window) (Fin 1))
                                            (fractionOfYear h window))
                         (retainedWindows h windows)))
            (js_sum (map (fractionOfYear h) (retainedWindows h windows)))"

text \<open>The sum of the squared residuals of the line \<open>y = a + b * x\<close> over a list of
  points, which a least-squares fit minimises; and the sample that the spec derives from
  a retained window: its rate less 1, weighted by the fraction of a year of that same
  window.\<close>

definition squaredResiduals :: "real \<Rightarrow> real \<Rightarrow> (real \<times> real) list \<Rightarrow> real" where
  "squaredResiduals a b points = (\<Sum>(x, y)\<leftarrow>points. (y - (a + b * x))\<^sup>2)"

definition sampleOf :: "heap \<Rightarrow> jsval list \<Rightarrow> growthSample" where
  "sampleOf h window =
     \<lparr>rate = js_sub (growthRate h window) (Fin 1), partOfYear = fractionOfYear h window\<rparr>"

text \<open>Four dates at 0, 1/2, 3/2 and 7/4 years with the values 1, 2, 4, 5. All sums,
  products and quotients of the regressions are dyadic, so the engine computes them
  exactly. \<open>gapHeap\<close> is the store after the estimator has merged values and dates into
  records.\<close>

definition gapDates :: heap where
  "gapDates = [DateObj (Some 0), DateObj (Some 15768000000), DateObj (Some 47304000000),
               DateObj (Some 55188000000)]"

definition gapValues :: "jsval list" where
  "gapValues = [Num (Fin 1), Num (Fin 2), Num (Fin 4), Num (Fin 5)]"

definition gapTimestamps :: "jsval list" where
  "gapTimestamps = [Ref 0, Ref 1, Ref 2, Ref 3]"

definition gapHeap :: heap where
  "gapHeap = gapDates @
     [Object [(''value'', Num (Fin 1)), (''date'', Ref 0)],
      Object [(''value'', Num (Fin 2)), (''date'', Ref 1)],
      Object [(''value'', Num (Fin 4)), (''date'', Ref 2)],
      Object [(''value'', Num (Fin 5)), (''date'', Ref 3)]]"

definition gapItems :: "jsval list" where
  "gapItems = [Ref 4, Ref 5, Ref 6, Ref 7]"

definition gapWindows :: "jsval list list" where
  "gapWindows = [[Ref 4, Ref 5], [Ref 5], [Ref 6, Ref 7], [Ref 6, Ref 7]]"

text \<open>The same values with dates at 0, 1/4, 3/2 and 7/4 years: no date falls into the
  second window, which spans the second half of the first year and the first half of
  the second.\<close>

definition holeDates :: heap where
  "holeDates = [DateObj (Some 0), DateObj (Some 7884000000), DateObj (Some 47304000000),
                DateObj (Some 55188000000)]"

definition holeHeap :: heap where
  "holeHeap = holeDates @
     [Object [(''value'', Num (Fin 1)), (''date'', Ref 0)],
      Object [(''value'', Num (Fin 2)), (''date'', Ref 1)],
      Object [(''value'', Num (Fin 4)), (''date'', Ref 2)],
      Object [(''value'', Num (Fin 5)), (''date'', Ref 3)]]"

definition holeWindows :: "jsval list list" where
  "holeWindows = [[Ref 4, Ref 5], [], [Ref 6, Ref 7], [Ref 6, Ref 7]]"

text \<open>The fixture of the repository's test of the estimator: nine dates between
  2024-01-01 and 2025-06-29, given as days after the first one (midnights of a time zone
  without daylight saving), and their values, each the double nearest to the decimal
  literal of the test.\<close>

definition testDates :: heap where
  "testDates = map (\<lambda>day. DateObj (Some (1704067200000 + day * 86400000)))
                 [0, 67, 166, 183, 265, 363, 366, 453, 545]"

definition testValues :: "jsval list" where
  "testValues = map (\<lambda>v. Num (binary64 v)) [1, 3 / 2, 2, 2, 5 / 2, 3, 31 / 10, 16 / 5, 33 / 10]"

section \<open>Rounding\<close>

text \<open>\<open>exponentOf\<close> is the binary exponent, rounding to an integer errs by at most one
  half, and \<open>binary64\<close> therefore keeps every integer below \<open>2^53\<close> and errs by at most
  the fraction \<open>2^-53\<close> on a normal number.\<close>

lemma exponentOf_bounds:
  assumes "0 < x"
  shows "2 powi (exponentOf x) \<le> x" and "x < 2 powi (exponentOf x + 1)"
proof -
  have "2 powi (exponentOf x) \<le> x \<and> x < 2 powi (exponentOf x + 1)"
  proof (cases "1 \<le> x")
    case True
    let ?n = "\<lfloor>x\<rfloor>"
    have n: "0 < ?n" using True by linarith
    have b1: "1 \<le> bitlen ?n" using n bitlen_eq_zero_iff [of ?n] bitlen_nonneg [of ?n] by linarith
    have lo: "2 ^ nat (bitlen ?n - 1) \<le> ?n" and hi: "?n < 2 ^ nat (bitlen ?n)"
      using bitlen_bounds [OF n] by simp_all
    have e: "exponentOf x = bitlen ?n - 1" using True by (simp add: exponentOf_def)
    have "(2::real) powi (bitlen ?n - 1) = 2 ^ nat (bitlen ?n - 1)"
      using b1 by (simp add: power_int_def)
    also have "\<dots> = of_int (2 ^ nat (bitlen ?n - 1))" by simp
    also have "\<dots> \<le> of_int ?n" using lo by (simp only: of_int_le_iff)
    also have "\<dots> \<le> x" by simp
    finally have A: "2 powi (exponentOf x) \<le> x" by (simp add: e)
    have "?n + 1 \<le> 2 ^ nat (bitlen ?n)" using hi by linarith
    then have "of_int (?n + 1) \<le> (of_int (2 ^ nat (bitlen ?n)) :: real)"
      by (simp only: of_int_le_iff)
    then have "of_int (?n + 1) \<le> (2::real) ^ nat (bitlen ?n)" by simp
    moreover have "x < of_int (?n + 1)" by linarith
    ultimately have "x < (2::real) ^ nat (bitlen ?n)" by (rule less_le_trans [rotated])
    moreover have "(2::real) powi (bitlen ?n - 1 + 1) = 2 ^ nat (bitlen ?n)"
      using b1 by (simp add: power_int_def)
    ultimately have B: "x < 2 powi (exponentOf x + 1)" by (simp add: e)
    show ?thesis using A B ..
  next
    case False
    let ?y = "1 / x"
    let ?m = "\<lceil>?y\<rceil>"
    have y: "1 < ?y" using False assms by simp
    have m: "0 < ?m - 1" using y by linarith
    let ?b = "bitlen (?m - 1)"
    have b1: "1 \<le> ?b"
      using m bitlen_eq_zero_iff [of "?m - 1"] bitlen_nonneg [of "?m - 1"] by linarith
    have lo: "2 ^ nat (?b - 1) \<le> ?m - 1" and hi: "?m - 1 < 2 ^ nat ?b"
      using bitlen_bounds [OF m] by simp_all
    have e: "exponentOf x = - ?b" using False by (simp add: exponentOf_def)
    have "?m \<le> 2 ^ nat ?b" using hi by linarith
    then have "of_int ?m \<le> (of_int (2 ^ nat ?b) :: real)" by (simp only: of_int_le_iff)
    then have "of_int ?m \<le> (2::real) ^ nat ?b" by simp
    moreover have "?y \<le> of_int ?m" by linarith
    ultimately have "?y \<le> 2 ^ nat ?b" by (rule order_trans [rotated])
    then have "1 / 2 ^ nat ?b \<le> x"
      using assms by (simp add: field_simps)
    moreover have "(2::real) powi (- ?b) = 1 / 2 ^ nat ?b"
      using b1 by (simp add: power_int_def field_simps)
    ultimately have A: "2 powi (exponentOf x) \<le> x" by (simp add: e)
    have "(of_int (2 ^ nat (?b - 1)) :: real) \<le> of_int (?m - 1)"
      using lo by (simp only: of_int_le_iff)
    then have "(2::real) ^ nat (?b - 1) \<le> of_int (?m - 1)" by simp
    moreover have "of_int (?m - 1) < ?y" by linarith
    ultimately have "2 ^ nat (?b - 1) < ?y" by (rule le_less_trans)
    then have "x < 1 / 2 ^ nat (?b - 1)"
      using assms by (simp add: field_simps)
    moreover have "(2::real) powi (- ?b + 1) = 1 / 2 ^ nat (?b - 1)"
    proof -
      have "- ?b + 1 = - (?b - 1)" by simp
      then have "(2::real) powi (- ?b + 1) = 2 powi (- (?b - 1))" by simp
      also have "\<dots> = 1 / 2 powi (?b - 1)" by (simp only: power_int_minus_divide)
      also have "\<dots> = 1 / 2 ^ nat (?b - 1)" using b1 by (simp add: power_int_def)
      finally show ?thesis .
    qed
    ultimately have B: "x < 2 powi (exponentOf x + 1)" by (simp add: e)
    show ?thesis using A B ..
  qed
  then show "2 powi (exponentOf x) \<le> x" and "x < 2 powi (exponentOf x + 1)" by simp_all
qed

lemma roundHalfEven_int [simp]: "roundHalfEven (of_int k) = k"
  by (simp add: roundHalfEven_def)

lemma roundHalfEven_err: "\<bar>of_int (roundHalfEven q) - q\<bar> \<le> 1 / 2"
proof -
  let ?f = "\<lfloor>q\<rfloor>"
  have d: "0 \<le> q - of_int ?f" "q - of_int ?f < 1" by linarith+
  have "(roundHalfEven q = ?f \<and> q - of_int ?f \<le> 1 / 2)
      \<or> (roundHalfEven q = ?f + 1 \<and> 1 / 2 \<le> q - of_int ?f)"
  proof (cases "q - of_int ?f < 1 / 2")
    case True
    then show ?thesis by (simp add: roundHalfEven_def Let_def)
  next
    case False
    show ?thesis
    proof (cases "1 / 2 < q - of_int ?f")
      case True
      then show ?thesis using False by (simp add: roundHalfEven_def Let_def)
    next
      case tie: False
      then have "q - of_int ?f = 1 / 2" using False by linarith
      then show ?thesis by (cases "even ?f") (simp_all add: roundHalfEven_def Let_def)
    qed
  qed
  then show ?thesis using d by auto
qed

lemma exponentOf_ge:
  assumes "0 < x" "2 powi k \<le> x"
  shows "k \<le> exponentOf x"
proof (rule ccontr)
  assume "\<not> k \<le> exponentOf x"
  then have "exponentOf x + 1 \<le> k" by simp
  then have "(2::real) powi (exponentOf x + 1) \<le> 2 powi k"
    by (intro power_int_increasing) simp_all
  then show False using exponentOf_bounds(2) [OF assms(1)] assms(2) by linarith
qed

lemma exponentOf_le:
  assumes "0 < x" "x < 2 powi (k + 1)"
  shows "exponentOf x \<le> k"
proof (rule ccontr)
  assume "\<not> exponentOf x \<le> k"
  then have "k + 1 \<le> exponentOf x" by simp
  then have "(2::real) powi (k + 1) \<le> 2 powi (exponentOf x)"
    by (intro power_int_increasing) simp_all
  then show False using exponentOf_bounds(1) [OF assms(1)] assms(2) by linarith
qed

text \<open>Integers below \<open>2^53\<close> are doubles.\<close>

lemma binary64_int:
  assumes "x \<in> \<int>" "\<bar>x\<bar> < 2 ^ 53"
  shows "binary64 x = Fin x"
proof (cases "x = 0")
  case True
  then show ?thesis by (simp add: binary64_def)
next
  case False
  obtain m :: int where m: "x = of_int m" using assms(1) by (auto elim: Ints_cases)
  have pos: "0 < \<bar>x\<bar>" using False by simp
  have "1 \<le> \<bar>m\<bar>" using False m by auto
  then have one: "2 powi 0 \<le> \<bar>x\<bar>" using m by simp
  have e0: "0 \<le> exponentOf \<bar>x\<bar>" using exponentOf_ge [OF pos one] .
  have "\<bar>x\<bar> < 2 powi (52 + 1)" using assms(2) by simp
  then have e52: "exponentOf \<bar>x\<bar> \<le> 52" using exponentOf_le [OF pos] by blast
  define e where "e = exponentOf \<bar>x\<bar>"
  define u :: real where "u = 2 powi (e - 52)"
  have emax: "max e (- 1022) = e" using e0 by (simp add: e_def)
  have u: "u = 1 / 2 ^ nat (52 - e)"
  proof -
    have "e - 52 = - (52 - e)" by simp
    then have "u = 2 powi (- (52 - e))" by (simp add: u_def)
    also have "\<dots> = 1 / 2 powi (52 - e)" by (simp only: power_int_minus_divide)
    also have "\<dots> = 1 / 2 ^ nat (52 - e)" using e52 by (simp add: power_int_def e_def)
    finally show ?thesis .
  qed
  have q: "x / u = of_int (m * 2 ^ nat (52 - e))" by (simp add: u m)
  have y: "of_int (roundHalfEven (x / u)) * u = x"
    unfolding q roundHalfEven_int by (simp add: u m)
  have "\<bar>x\<bar> < 2 ^ 1024"
  proof -
    have "(2::real) ^ 53 \<le> 2 ^ 1024" by (intro power_increasing) simp_all
    then show ?thesis using assms(2) by linarith
  qed
  then show ?thesis
    using False y by (simp add: binary64_def Let_def emax flip: e_def u_def)
qed

text \<open>In the normal range the relative error of rounding is at most \<open>2^-53\<close>.\<close>

lemma binary64_err:
  assumes lo: "2 powi (- 1022) \<le> \<bar>x\<bar>" and hi: "\<bar>x\<bar> \<le> 2 ^ 54"
  shows "\<exists>y. binary64 x = Fin y \<and> \<bar>y - x\<bar> \<le> \<bar>x\<bar> / 2 ^ 53"
proof -
  have pos: "0 < \<bar>x\<bar>"
  proof -
    have "(0::real) < 2 powi (- 1022)" by simp
    then show ?thesis using lo by linarith
  qed
  then have x0: "x \<noteq> 0" by simp
  define e where "e = exponentOf \<bar>x\<bar>"
  define u :: real where "u = 2 powi (e - 52)"
  define y where "y = of_int (roundHalfEven (x / u)) * u"
  have e_lo: "- 1022 \<le> e" using exponentOf_ge [OF pos lo] by (simp add: e_def)
  have emax: "max e (- 1022) = e" using e_lo by simp
  have upos: "0 < u" by (simp add: u_def)
  have ule: "u * 2 ^ 52 \<le> \<bar>x\<bar>"
  proof -
    have "(2::real) powi 52 = 2 ^ 52" by simp
    then have "u * 2 ^ 52 = 2 powi (e - 52) * 2 powi 52" by (simp only: u_def)
    also have "\<dots> = 2 powi (e - 52 + 52)" by (rule power_int_add [symmetric]) simp
    also have "\<dots> = 2 powi e" by simp
    also have "\<dots> \<le> \<bar>x\<bar>" using exponentOf_bounds(1) [OF pos] by (simp add: e_def)
    finally show ?thesis .
  qed
  have "\<bar>y - x\<bar> = \<bar>of_int (roundHalfEven (x / u)) - x / u\<bar> * u"
  proof -
    have "y - x = (of_int (roundHalfEven (x / u)) - x / u) * u"
      using upos by (simp add: y_def field_simps)
    then show ?thesis using upos by (simp add: abs_mult)
  qed
  also have "\<dots> \<le> (1 / 2) * u"
    using roundHalfEven_err [of "x / u"] upos by (intro mult_right_mono) simp_all
  also have "\<dots> \<le> \<bar>x\<bar> / 2 ^ 53"
    using ule by (simp add: field_simps)
  finally have err: "\<bar>y - x\<bar> \<le> \<bar>x\<bar> / 2 ^ 53" .
  have "\<bar>y\<bar> \<le> \<bar>x\<bar> + \<bar>x\<bar> / 2 ^ 53" using err by linarith
  also have "\<dots> \<le> 2 * \<bar>x\<bar>" by (simp add: field_simps)
  also have "\<dots> \<le> 2 ^ 55" using hi by simp
  also have "\<dots> < (2::real) ^ 1024" by (intro power_strict_increasing) simp_all
  finally have "\<not> 2 ^ 1024 \<le> \<bar>y\<bar>" by simp
  then have "binary64 x = Fin y"
    using x0 by (simp add: binary64_def Let_def emax flip: e_def u_def y_def)
  then show ?thesis using err by blast
qed

text \<open>The quotient of two integers, the dividend below \<open>2^53\<close> in magnitude, rounds to a
  double with the same ceiling.\<close>

lemma binary64_quotient_ceiling:
  fixes a b :: int
  assumes a: "\<bar>a\<bar> < 2 ^ 53" and b: "1 \<le> b" "b \<le> 2 ^ 53"
  shows "\<exists>y. binary64 (of_int a / of_int b) = Fin y \<and> \<lceil>y\<rceil> = \<lceil>of_int a / of_int b :: real\<rceil>"
proof (cases "a = 0")
  case True
  then show ?thesis by (simp add: binary64_def)
next
  case False
  let ?x = "of_int a / of_int b :: real"
  let ?k = "\<lceil>?x\<rceil>"
  have bpos: "(0::real) < of_int b" using b by simp
  have abs_x: "\<bar>?x\<bar> = of_int \<bar>a\<bar> / of_int b"
    using bpos by (simp only: abs_divide of_int_abs abs_of_pos)
  have "1 \<le> \<bar>a\<bar>" using False by simp
  then have "(1::real) \<le> of_int \<bar>a\<bar>" by (simp only: of_int_1_le_iff)
  then have x_lo: "1 / of_int b \<le> \<bar>?x\<bar>"
    unfolding abs_x using bpos by (simp add: divide_right_mono)
  have "(of_int b :: real) \<le> 2 ^ 53" using b(2) by (metis of_int_le_iff of_int_numeral of_int_power)
  then have "1 / 2 ^ 53 \<le> 1 / (of_int b :: real)" using bpos by (simp add: field_simps)
  moreover have "(2::real) powi (- 1022) \<le> 1 / 2 ^ 53"
  proof -
    have "(2::real) powi (- 1022) = 1 / 2 ^ 1022" by (simp add: power_int_minus_divide)
    moreover have "(2::real) ^ 53 \<le> 2 ^ 1022" by (intro power_increasing) simp_all
    ultimately show ?thesis by (simp add: field_simps)
  qed
  ultimately have lo: "2 powi (- 1022) \<le> \<bar>?x\<bar>" using x_lo by linarith
  have alt: "(of_int \<bar>a\<bar> :: real) < 2 ^ 53"
    using a by (metis of_int_less_iff of_int_numeral of_int_power)
  have "\<bar>?x\<bar> \<le> of_int \<bar>a\<bar>"
  proof -
    have "(1::real) \<le> of_int b" using b(1) by simp
    moreover have "(0::real) \<le> of_int \<bar>a\<bar>" by simp
    ultimately have "of_int \<bar>a\<bar> / of_int b \<le> (of_int \<bar>a\<bar> :: real) / 1"
      by (intro divide_left_mono) simp_all
    then show ?thesis unfolding abs_x by simp
  qed
  then have hi: "\<bar>?x\<bar> \<le> 2 ^ 54" using alt by simp
  obtain y where y: "binary64 ?x = Fin y" and err: "\<bar>y - ?x\<bar> \<le> \<bar>?x\<bar> / 2 ^ 53"
    using binary64_err [OF lo hi] by blast
  have small: "\<bar>?x\<bar> / 2 ^ 53 < 1 / of_int b"
    unfolding abs_x using alt bpos by (simp add: field_simps)
  have upper: "y \<le> of_int ?k"
  proof (cases "?x = of_int ?k")
    case True
    have "\<bar>of_int ?k :: real\<bar> < 2 ^ 53"
    proof -
      have "\<bar>of_int ?k :: real\<bar> = \<bar>?x\<bar>" using True by simp
      also have "\<dots> \<le> of_int \<bar>a\<bar>" by fact
      finally show ?thesis using alt by linarith
    qed
    then have "binary64 (of_int ?k) = Fin (of_int ?k)" by (intro binary64_int) simp_all
    then show ?thesis using y True by simp
  next
    case False
    have "?x \<le> of_int ?k" by simp
    then have "?x < of_int ?k" using False by linarith
    then have "of_int a < of_int ?k * (of_int b :: real)" using bpos by (simp add: field_simps)
    then have "a < ?k * b" by (metis of_int_less_iff of_int_mult)
    then have "a + 1 \<le> ?k * b" by simp
    then have "of_int (a + 1) \<le> (of_int (?k * b) :: real)" by (simp only: of_int_le_iff)
    then have "(of_int a + 1) / of_int b \<le> (of_int ?k * of_int b) / (of_int b :: real)"
      using bpos by (intro divide_right_mono) simp_all
    moreover have "(of_int a + 1) / of_int b = ?x + 1 / of_int b"
      by (simp add: add_divide_distrib)
    moreover have "(of_int ?k * of_int b) / (of_int b :: real) = of_int ?k"
      using bpos by simp
    ultimately have "?x + 1 / of_int b \<le> of_int ?k" by simp
    then show ?thesis using err small by linarith
  qed
  have lower: "of_int ?k - 1 < y"
  proof -
    have "of_int ?k - 1 < ?x" by linarith
    then have "(of_int ?k - 1) * of_int b < (of_int a :: real)" using bpos by (simp add: field_simps)
    then have "(of_int ((?k - 1) * b) :: real) < of_int a" by simp
    then have "(?k - 1) * b < a" by (simp only: of_int_less_iff)
    then have "(?k - 1) * b + 1 \<le> a" by simp
    then have "(of_int ((?k - 1) * b + 1) :: real) \<le> of_int a" by (simp only: of_int_le_iff)
    then have "((of_int ?k - 1) * of_int b + 1) / of_int b \<le> ?x"
      using bpos by (intro divide_right_mono) simp_all
    moreover have "((of_int ?k - 1) * of_int b + 1) / of_int b = of_int ?k - 1 + 1 / (of_int b :: real)"
      using bpos by (simp add: add_divide_distrib)
    ultimately have "of_int ?k - 1 + 1 / of_int b \<le> ?x" by simp
    then show ?thesis using err small by linarith
  qed
  have "\<lceil>y\<rceil> = ?k" using upper lower by (intro ceiling_unique) simp_all
  then show ?thesis using y by blast
qed

lemma binary64_eq:
  assumes "x \<noteq> 0" "\<bar>y\<bar> < 2 ^ 1024"
    and "max (exponentOf \<bar>x\<bar>) (- 1022) = e"
    and "of_int (roundHalfEven (x / 2 powi (e - 52))) * 2 powi (e - 52) = y"
  shows "binary64 x = Fin y"
proof -
  have "binary64 x = (if 2 ^ 1024 \<le> \<bar>y\<bar> then signed_inf (0 < x) else Fin y)"
    unfolding binary64_def Let_def assms(3) assms(4) using assms(1) by (simp only: if_False)
  then show ?thesis using assms(2) by simp
qed

text \<open>A multiple of \<open>2^-k\<close> with a numerator below \<open>2^53\<close> is a double.\<close>

lemma binary64_exact:
  fixes m :: int
  assumes m: "\<bar>m\<bar> < 2 ^ 53" and k: "k \<le> 1022"
  shows "binary64 (of_int m / 2 ^ k) = Fin (of_int m / 2 ^ k)"
proof (cases "m = 0")
  case True
  then show ?thesis by (simp add: binary64_def)
next
  case False
  let ?x = "of_int m / 2 ^ k :: real"
  have x0: "?x \<noteq> 0" using False by simp
  have pos: "0 < \<bar>?x\<bar>" using x0 by simp
  have absx: "\<bar>?x\<bar> = of_int \<bar>m\<bar> / 2 ^ k" by simp
  have "1 \<le> \<bar>m\<bar>" using False by simp
  then have "(1::real) \<le> of_int \<bar>m\<bar>" by (simp only: of_int_1_le_iff)
  then have "1 / 2 ^ k \<le> \<bar>?x\<bar>" unfolding absx by (simp add: divide_right_mono)
  moreover have "(2::real) powi (- int k) = 1 / 2 ^ k" by (simp add: power_int_minus_divide)
  ultimately have lo: "2 powi (- int k) \<le> \<bar>?x\<bar>" by simp
  have e_lo: "- int k \<le> exponentOf \<bar>?x\<bar>" using exponentOf_ge [OF pos lo] .
  have "(of_int \<bar>m\<bar> :: real) < of_int (2 ^ 53)" using m by (simp only: of_int_less_iff)
  then have m53: "(of_int \<bar>m\<bar> :: real) < 2 ^ 53" by simp
  have "\<bar>?x\<bar> < 2 ^ 53 / 2 ^ k" unfolding absx using m53 by (simp add: divide_strict_right_mono)
  moreover have "(2::real) powi (52 - int k + 1) = 2 ^ 53 / 2 ^ k"
  proof -
    have "(2::real) powi (52 - int k + 1) = 2 powi (53 + (- int k))" by simp
    also have "\<dots> = 2 powi 53 * 2 powi (- int k)" by (rule power_int_add) simp
    also have "\<dots> = 2 ^ 53 / 2 ^ k" by (simp add: power_int_minus_divide)
    finally show ?thesis .
  qed
  ultimately have "\<bar>?x\<bar> < 2 powi (52 - int k + 1)" by simp
  then have e_hi: "exponentOf \<bar>?x\<bar> \<le> 52 - int k" using exponentOf_le [OF pos] by blast
  define e where "e = exponentOf \<bar>?x\<bar>"
  define u :: real where "u = 2 powi (e - 52)"
  define j where "j = nat (52 - int k - e)"
  have emax: "max e (- 1022) = e" using e_lo k by (simp add: e_def)
  have u: "u = 1 / (2 ^ k * 2 ^ j)"
  proof -
    have "e - 52 = - (int k + int j)" using e_hi by (simp add: j_def e_def)
    then have "u = 2 powi (- (int k + int j))" by (simp add: u_def)
    also have "\<dots> = 1 / 2 powi (int k + int j)" by (simp only: power_int_minus_divide)
    also have "2 powi (int k + int j) = (2::real) powi int k * 2 powi int j"
      by (rule power_int_add) simp
    finally show ?thesis by simp
  qed
  have q: "?x / u = of_int (m * 2 ^ j)" by (simp add: u)
  have y: "of_int (roundHalfEven (?x / u)) * u = ?x"
    unfolding q roundHalfEven_int by (simp add: u)
  have "\<bar>?x\<bar> \<le> of_int \<bar>m\<bar>"
  proof -
    have "(1::real) \<le> 2 ^ k" by simp
    then have "of_int \<bar>m\<bar> / 2 ^ k \<le> (of_int \<bar>m\<bar> :: real) / 1"
      by (intro divide_left_mono) simp_all
    then show ?thesis unfolding absx by simp
  qed
  moreover have "(2::real) ^ 53 \<le> 2 ^ 1024" by (intro power_increasing) simp_all
  ultimately have bound: "\<bar>?x\<bar> < 2 ^ 1024" using m53 by linarith
  show ?thesis
    by (rule binary64_eq [OF x0 bound emax [unfolded e_def] y [unfolded u_def e_def]])
qed

text \<open>Doubles that the evaluations below meet: multiples of \<open>2^-30\<close> below \<open>2^23\<close>.\<close>

lemma binary64_dyadic:
  assumes "x * 2 ^ 30 \<in> \<int>" "\<bar>x\<bar> < 2 ^ 23"
  shows "binary64 x = Fin x"
proof -
  obtain m :: int where m: "x * 2 ^ 30 = of_int m" using assms(1) by (auto elim: Ints_cases)
  then have x: "x = of_int m / 2 ^ 30" by simp
  have "\<bar>x\<bar> * 2 ^ 30 < 2 ^ 23 * 2 ^ 30" using assms(2) by (rule mult_strict_right_mono) simp
  then have "\<bar>x * 2 ^ 30\<bar> < 2 ^ 53" by (simp add: abs_mult)
  then have "\<bar>of_int m :: real\<bar> < 2 ^ 53" by (simp only: m)
  then have "(of_int \<bar>m\<bar> :: real) < of_int (2 ^ 53)" by simp
  then have "\<bar>m\<bar> < 2 ^ 53" by (simp only: of_int_less_iff)
  then show ?thesis unfolding x by (intro binary64_exact) simp_all
qed

lemma ceil_quotient:
  assumes "a \<in> \<int>" "b \<in> \<int>" "\<bar>a\<bar> < 2 ^ 53" "0 < b" "b \<le> 2 ^ 53"
  shows "Math_ceil (binary64 (a / b)) = Fin (of_int \<lceil>a / b\<rceil>)"
proof -
  obtain m :: int where m: "a = of_int m" using assms(1) by (auto elim: Ints_cases)
  obtain n :: int where n: "b = of_int n" using assms(2) by (auto elim: Ints_cases)
  have "(of_int \<bar>m\<bar> :: real) < of_int (2 ^ 53)" using assms(3) m by simp
  then have m53: "\<bar>m\<bar> < 2 ^ 53" by (simp only: of_int_less_iff)
  have "0 < n" using assms(4) n by simp
  then have n1: "1 \<le> n" by simp
  have "(of_int n :: real) \<le> of_int (2 ^ 53)" using assms(5) n by simp
  then have n53: "n \<le> 2 ^ 53" by (simp only: of_int_le_iff)
  obtain y where "binary64 (of_int m / of_int n) = Fin y"
      and "\<lceil>y\<rceil> = \<lceil>of_int m / of_int n :: real\<rceil>"
    using binary64_quotient_ceiling [OF m53 n1 n53] by blast
  then show ?thesis by (simp add: m n)
qed

text \<open>The double nearest to 5/3.\<close>

lemma five_thirds: "binary64 (5 / 3) = Fin (7505999378950827 / 4503599627370496)"
  by (simp add: binary64_def exponentOf_def roundHalfEven_def compute_bitlen power_int_minus Let_def)

section \<open>Basic facts\<close>

lemma isInteger_Ints: "isInteger x \<longleftrightarrow> x \<in> \<int>"
  unfolding isInteger_def by (metis Ints_of_int of_int_floor)

lemma js_sub_Fin: "js_sub (Fin a) (Fin b) = binary64 (a - b)"
  by (simp add: js_sub_def)

lemma js_sub_int:
  assumes "a \<in> \<int>" "b \<in> \<int>" "\<bar>a - b\<bar> < 2 ^ 53"
  shows "js_sub (Fin a) (Fin b) = Fin (a - b)"
  using assms by (simp add: js_sub_Fin binary64_int)

lemma js_ge_Fin [simp]: "js_ge (Fin a) (Fin b) = (b \<le> a)"
  by (simp add: js_ge_def)

lemma half_year: "js_div yearInMs (Fin 2) = Fin 15768000000"
  by (simp add: yearInMs_def binary64_int)

lemma year_stride: "js_sub yearInMs (Fin 15768000000) = Fin 15768000000"
  by (simp add: yearInMs_def js_sub_Fin binary64_int)

lemma year_checks: "\<not> js_le yearInMs (Fin 0)" "\<not> js_ge (Fin 15768000000) yearInMs"
  by (simp_all add: yearInMs_def)

text \<open>The rules that evaluate the functions on the examples below.\<close>

lemmas evals = getWindows_def makeWindows_def amountOfWindows_def itemValid_def itemTime_def
  itemValue_def deref_def inWindow_def windowStart_def windowEnd_def toNumber_def js_sub_Fin
  binary64_int binary64_dyadic ceil_quotient upt_conv_Cons

lemma deref_append_old: "deref h a = Some obj \<Longrightarrow> deref (h @ h') a = Some obj"
  by (auto simp: deref_def nth_append split: if_splits)

lemma deref_append_new: "i < length h' \<Longrightarrow> deref (h @ h') (length h + i) = Some (h' ! i)"
  by (simp add: deref_def nth_append)

lemma every_True_iff: "every p xs = Inr True \<longleftrightarrow> (\<forall>x\<in>set xs. p x = Inr True)"
  by (induction xs) (auto split: sum.splits if_splits)

lemma typeof_number_iff: "typeof v = ''number'' \<longleftrightarrow> (\<exists>n. v = Num n)"
  by (cases v) simp_all

lemma instanceofDate_iff:
  "instanceofDate h v \<longleftrightarrow> (\<exists>d t. v = Ref d \<and> deref h d = Some (DateObj t))"
  by (cases v) (auto split: option.splits hobj.splits)

text \<open>What the check of lines 15--17 establishes about an element: it is a plain object
  with a Number under \<open>value\<close> and a \<open>Date\<close> under \<open>date\<close>. So \<open>itemTime\<close> and
  \<open>itemValue\<close> never reach their fall-back branches on a validated series.\<close>

lemma itemValid_shape:
  assumes "itemValid h item = Inr True"
  shows "\<exists>a fs n d t. item = Ref a \<and> deref h a = Some (Object fs)
            \<and> map_of fs ''value'' = Some (Num n)
            \<and> map_of fs ''date'' = Some (Ref d) \<and> deref h d = Some (DateObj t)"
proof (cases item)
  case (Ref a)
  with assms show ?thesis
    by (cases "deref h a")
       (auto simp: itemValid_def typeof_number_iff instanceofDate_iff
             split: hobj.splits option.splits if_splits)
qed (use assms in \<open>simp_all add: itemValid_def\<close>)

lemma getTime_cases: "getTime t = NaN \<or> (\<exists>k. getTime t = Fin (of_int k))"
  by (cases t) auto

lemma itemTime_cases: "itemTime h item = NaN \<or> (\<exists>t. itemTime h item = Fin (of_int t))"
  using getTime_cases
  by (auto simp: itemTime_def split: sum.splits jsval.splits option.splits hobj.splits)

lemma itemTime_Fin: "\<not> isNaN (itemTime h item) \<Longrightarrow> itemTime h item = Fin (timeMs h item)"
  using itemTime_cases [of h item] by (auto simp: timeMs_def)

lemma timeMs_Ints: "timeMs h item \<in> \<int>"
  using itemTime_cases [of h item] by (auto simp: timeMs_def)

lemma getWindows_default:
  "getWindows eng h data windowSizeInMs Undefined = getWindows eng h data windowSizeInMs (Num (Fin 0))"
  by (simp add: getWindows_def)

section \<open>Window arithmetic\<close>

lemma map_upt_nonempty: "0 < (n::nat) \<Longrightarrow> map f [0..<n] \<noteq> []"
  by simp

lemma count_pos:
  fixes T s :: real
  assumes "0 < s" "0 < T"
  shows "1 \<le> nat \<lceil>T / s\<rceil>"
proof -
  have "0 < T / s" using assms by simp
  then have "0 < \<lceil>T / s\<rceil>" by linarith
  then show ?thesis by linarith
qed

lemma count_covers:
  fixes T s :: real
  assumes "0 < s" "0 < T"
  shows "T \<le> real (nat \<lceil>T / s\<rceil>) * s"
proof -
  have "0 \<le> \<lceil>T / s\<rceil>" using count_pos [OF assms] by linarith
  then have "real (nat \<lceil>T / s\<rceil>) = of_int \<lceil>T / s\<rceil>" by simp
  moreover have "T / s \<le> of_int \<lceil>T / s\<rceil>" by (rule le_of_int_ceiling)
  ultimately have "T / s \<le> real (nat \<lceil>T / s\<rceil>)" by simp
  then show ?thesis using assms(1) by (simp add: pos_divide_le_eq)
qed

lemma last_end_ge:
  fixes T s w :: real
  assumes "0 < s" "0 < T"
  shows "T + (w - s) \<le> real (nat \<lceil>T / s\<rceil> - 1) * s + w"
proof -
  have "real (nat \<lceil>T / s\<rceil> - 1) = real (nat \<lceil>T / s\<rceil>) - 1"
    using count_pos [OF assms] by (simp add: of_nat_diff)
  then show ?thesis using count_covers [OF assms] by (simp add: algebra_simps)
qed

lemma last_end_gt:
  fixes T s w :: real
  assumes s: "0 < s" and T: "0 < T" and w: "s \<le> w" and strict: "s < w \<or> T / s \<notin> \<int>"
  shows "T < real (nat \<lceil>T / s\<rceil> - 1) * s + w"
proof -
  have ge: "T + (w - s) \<le> real (nat \<lceil>T / s\<rceil> - 1) * s + w"
    using last_end_ge [OF s T] .
  show ?thesis
  proof (cases "s < w")
    case True
    then show ?thesis using ge by linarith
  next
    case False
    then have notint: "T / s \<notin> \<int>" using strict by blast
    have "T / s \<noteq> of_int \<lceil>T / s\<rceil>"
      using notint Ints_of_int by metis
    moreover have "T / s \<le> of_int \<lceil>T / s\<rceil>" by (rule le_of_int_ceiling)
    ultimately have lt: "T / s < of_int \<lceil>T / s\<rceil>" by linarith
    have "0 \<le> \<lceil>T / s\<rceil>" using count_pos [OF s T] by linarith
    then have "real (nat \<lceil>T / s\<rceil>) = of_int \<lceil>T / s\<rceil>" by simp
    then have "T / s < real (nat \<lceil>T / s\<rceil>)" using lt by simp
    then have big: "T < real (nat \<lceil>T / s\<rceil>) * s" using s by (simp add: pos_divide_less_eq)
    have "real (nat \<lceil>T / s\<rceil> - 1) = real (nat \<lceil>T / s\<rceil>) - 1"
      using count_pos [OF s T] by (simp add: of_nat_diff)
    then have "real (nat \<lceil>T / s\<rceil> - 1) * s + w = real (nat \<lceil>T / s\<rceil>) * s + (w - s)"
      by (simp add: algebra_simps)
    then show ?thesis using big w by linarith
  qed
qed

lemma cover_window:
  fixes d T s w :: real
  assumes s: "0 < s" and w: "s \<le> w" and d0: "0 \<le> d" and dT: "d \<le> T" and T: "0 < T"
    and strict: "T < real (nat \<lceil>T / s\<rceil> - 1) * s + w"
  shows "\<exists>i<nat \<lceil>T / s\<rceil>. real i * s \<le> d \<and> d < real i * s + w"
proof -
  let ?n = "nat \<lceil>T / s\<rceil>"
  let ?k = "nat \<lfloor>d / s\<rfloor>"
  have n1: "1 \<le> ?n" using count_pos [OF s T] .
  have k0: "0 \<le> \<lfloor>d / s\<rfloor>" using d0 s by simp
  have kle: "real ?k * s \<le> d"
  proof -
    have "real ?k = of_int \<lfloor>d / s\<rfloor>" using k0 by simp
    also have "\<dots> \<le> d / s" by (rule of_int_floor_le)
    finally show ?thesis using s by (simp add: pos_le_divide_eq)
  qed
  have klt: "d < real ?k * s + s"
  proof -
    have "d / s < of_int \<lfloor>d / s\<rfloor> + 1" by linarith
    also have "of_int \<lfloor>d / s\<rfloor> = real ?k" using k0 by simp
    finally have "d < (real ?k + 1) * s" using s by (simp add: pos_divide_less_eq)
    then show ?thesis by (simp add: algebra_simps)
  qed
  show ?thesis
  proof (cases "?k < ?n")
    case True
    then show ?thesis using kle klt w by (intro exI [of _ ?k]) auto
  next
    case False
    then have "?n - 1 \<le> ?k" by linarith
    then have "real (?n - 1) \<le> real ?k" by (simp only: of_nat_le_iff)
    then have "real (?n - 1) * s \<le> real ?k * s" using s by (simp add: mult_right_mono)
    then have lo: "real (?n - 1) * s \<le> d" using kle by linarith
    have "d < real (?n - 1) * s + w" using strict dT by linarith
    then show ?thesis using lo n1 by (intro exI [of _ "?n - 1"]) auto
  qed
qed

text \<open>The start of every window lies before the end of the series.\<close>

lemma start_below_span:
  fixes T s :: real
  assumes "0 < s" "i < nat \<lceil>T / s\<rceil>"
  shows "real i * s < T"
proof -
  have "int i < \<lceil>T / s\<rceil>" using assms(2) by linarith
  then have "of_int (int i) < T / s" by (simp only: less_ceiling_iff)
  then have "real i < T / s" by simp
  then show ?thesis using assms(1) by (simp add: pos_less_divide_eq)
qed

section \<open>The windows of a valid series\<close>

text \<open>On whole milliseconds within the exact range, the bounds of the windows and the
  number of windows are those of real arithmetic.\<close>

lemma windowBounds_exact:
  fixes s w T :: real
  assumes s: "s \<in> \<int>" "0 < s" and w: "w \<in> \<int>" "0 < w" "w \<le> 2 ^ 51" and T: "T \<le> 2 ^ 52"
    and i: "real i * s < T"
  shows "windowStart i (Fin s) = Fin (real i * s)"
    and "windowEnd i (Fin s) (Fin w) = Fin (real i * s + w)"
proof -
  have int: "real i * s \<in> \<int>" using s(1) by (simp add: Ints_mult)
  have nonneg: "0 \<le> real i * s" using s(2) by simp
  have "\<bar>real i * s\<bar> < 2 ^ 53" using nonneg i T by simp
  then show start: "windowStart i (Fin s) = Fin (real i * s)"
    using int by (simp add: windowStart_def binary64_int)
  have "real i * s + w \<in> \<int>" using int w(1) by (rule Ints_add)
  moreover have "\<bar>real i * s + w\<bar> < 2 ^ 53" using nonneg i T w by simp
  ultimately show "windowEnd i (Fin s) (Fin w) = Fin (real i * s + w)"
    by (simp add: windowEnd_def start binary64_int)
qed

lemma amountOfWindows_exact:
  fixes T s :: real
  assumes T: "T \<in> \<int>" "\<bar>T\<bar> \<le> 2 ^ 52" and s: "s \<in> \<int>" "0 < s" "s \<le> 2 ^ 52"
  shows "Math_ceil (js_div (Fin T) (Fin s)) = Fin (of_int \<lceil>T / s\<rceil>)"
proof -
  obtain a :: int where a: "T = of_int a" using T(1) by (auto elim: Ints_cases)
  obtain b :: int where b: "s = of_int b" using s(1) by (auto elim: Ints_cases)
  have "(of_int \<bar>a\<bar> :: real) < of_int (2 ^ 53)" using T(2) a by simp
  then have a53: "\<bar>a\<bar> < 2 ^ 53" by (simp only: of_int_less_iff)
  have "0 < b" using s(2) b by simp
  then have b1: "1 \<le> b" by simp
  have "(of_int b :: real) \<le> of_int (2 ^ 53)" using s(3) b by simp
  then have b53: "b \<le> 2 ^ 53" by (simp only: of_int_le_iff)
  obtain y where "binary64 (of_int a / of_int b) = Fin y"
      and "\<lceil>y\<rceil> = \<lceil>of_int a / of_int b :: real\<rceil>"
    using binary64_quotient_ceiling [OF a53 b1 b53] by blast
  then show ?thesis using s(2) by (simp add: a b)
qed

lemma makeWindows_exact:
  assumes ne: "items \<noteq> []"
    and dates: "\<forall>item\<in>set items. \<not> isNaN (itemTime h item)"
    and range: "\<forall>item\<in>set items. \<bar>timeMs h item\<bar> \<le> 2 ^ 51"
    and w: "w \<in> \<int>" "0 < w" "w \<le> 2 ^ 51"
    and ov: "ov \<in> \<int>" "\<bar>ov\<bar> \<le> 2 ^ 51" "ov < w"
    and count: "\<lceil>totalDuration h items / (w - ov)\<rceil> < 2 ^ 32"
  shows "makeWindows h items (Fin w) (Fin ov) =
     Inr (map (\<lambda>i. filter (\<lambda>item. real i * (w - ov) \<le> offsetMs h items item
                               \<and> offsetMs h items item < real i * (w - ov) + w) items)
            [0..<nat \<lceil>totalDuration h items / (w - ov)\<rceil>])"
proof -
  let ?s = "w - ov"
  let ?T = "totalDuration h items"
  let ?n = "nat \<lceil>?T / ?s\<rceil>"
  let ?first = "hd items"
  have first: "?first \<in> set items" and lst: "last items \<in> set items" using ne by simp_all
  have t: "itemTime h item = Fin (timeMs h item)" if "item \<in> set items" for item
    using dates itemTime_Fin that by blast
  have r: "\<bar>timeMs h item\<bar> \<le> 2 ^ 51" if "item \<in> set items" for item
    using range that by blast
  have s: "?s \<in> \<int>" "0 < ?s" "?s \<le> 2 ^ 52"
    using w ov by (simp_all add: Ints_diff)
  have stride: "js_sub (Fin w) (Fin ov) = Fin ?s"
  proof (rule js_sub_int [OF w(1) ov(1)])
    show "\<bar>w - ov\<bar> < 2 ^ 53" using s(2,3) by simp
  qed
  have T: "?T \<in> \<int>" "\<bar>?T\<bar> \<le> 2 ^ 52"
  proof -
    show "?T \<in> \<int>" unfolding totalDuration_def by (intro Ints_diff timeMs_Ints)
    show "\<bar>?T\<bar> \<le> 2 ^ 52"
      unfolding totalDuration_def using r [OF first] r [OF lst] by simp
  qed
  have off: "js_sub (itemTime h item) (itemTime h ?first) = Fin (offsetMs h items item)"
    if mem: "item \<in> set items" for item
  proof -
    have "\<bar>timeMs h item - timeMs h ?first\<bar> < 2 ^ 53"
      using r [OF first] r [OF mem] by simp
    then have "js_sub (Fin (timeMs h item)) (Fin (timeMs h ?first))
        = Fin (timeMs h item - timeMs h ?first)"
      by (intro js_sub_int timeMs_Ints)
    then show ?thesis by (simp only: t [OF mem] t [OF first] offsetMs_def)
  qed
  have duration: "js_sub (itemTime h (last items)) (itemTime h ?first) = Fin ?T"
    using off [OF lst] by (simp only: offsetMs_def totalDuration_def)
  have "amountOfWindows h items (Fin w) (Fin ov)
      = Math_ceil (js_div (js_sub (itemTime h (last items)) (itemTime h ?first))
                          (js_sub (Fin w) (Fin ov)))"
    by (simp only: amountOfWindows_def Let_def)
  also have "\<dots> = Math_ceil (js_div (Fin ?T) (Fin ?s))" by (simp only: duration stride)
  also have "\<dots> = Fin (of_int \<lceil>?T / ?s\<rceil>)" by (rule amountOfWindows_exact [OF T s])
  finally have amount: "amountOfWindows h items (Fin w) (Fin ov) = Fin (of_int \<lceil>?T / ?s\<rceil>)" .
  have "(of_int \<lceil>?T / ?s\<rceil> :: real) < of_int (2 ^ 32)"
    using count by (simp only: of_int_less_iff)
  then have "(of_int \<lceil>?T / ?s\<rceil> :: real) < 2 ^ 32" by simp
  then have cnt: "toLength (amountOfWindows h items (Fin w) (Fin ov)) = Some ?n"
    by (simp add: amount)
  have flt: "filter (inWindow h (itemTime h ?first) (windowStart i (Fin ?s))
                 (windowEnd i (Fin ?s) (Fin w))) items
       = filter (\<lambda>item. real i * ?s \<le> offsetMs h items item
                               \<and> offsetMs h items item < real i * ?s + w) items"
    if "i \<in> set [0..<?n]" for i
  proof -
    have "i < ?n" using that by simp
    then have below: "real i * ?s < ?T" using s(2) by (intro start_below_span)
    have T52: "?T \<le> 2 ^ 52" using T(2) by linarith
    have bounds: "windowStart i (Fin ?s) = Fin (real i * ?s)"
        "windowEnd i (Fin ?s) (Fin w) = Fin (real i * ?s + w)"
      using windowBounds_exact [OF s(1,2) w T52 below] by simp_all
    show ?thesis
    proof (rule filter_cong [OF refl])
      fix item assume "item \<in> set items"
      then show "inWindow h (itemTime h ?first) (windowStart i (Fin ?s))
                   (windowEnd i (Fin ?s) (Fin w)) item
          = (real i * ?s \<le> offsetMs h items item \<and> offsetMs h items item < real i * ?s + w)"
        by (simp only: inWindow_def bounds off js_ge_Fin js_lt.simps)
    qed
  qed
  have same: "map (\<lambda>index. filter (inWindow h (itemTime h ?first) (windowStart index (Fin ?s))
                 (windowEnd index (Fin ?s) (Fin w))) items) [0..<?n]
       = map (\<lambda>i. filter (\<lambda>item. real i * ?s \<le> offsetMs h items item
                               \<and> offsetMs h items item < real i * ?s + w) items) [0..<?n]"
    by (rule map_cong [OF refl]) (rule flt)
  have "makeWindows h items (Fin w) (Fin ov)
      = Inr (map (\<lambda>index. filter (inWindow h (itemTime h ?first) (windowStart index (Fin ?s))
                 (windowEnd index (Fin ?s) (Fin w))) items) [0..<?n])"
    using ne cnt by (cases items) (simp_all add: makeWindows_def Let_def stride)
  then show ?thesis by (simp only: same)
qed

lemma getWindows_exact:
  assumes "validSeries h items" "items \<noteq> []" "0 < w" "ov < w"
    and "wholeMilliseconds h items w ov"
    and "\<lceil>totalDuration h items / (w - ov)\<rceil> < 2 ^ 32"
  shows "getWindows eng h (Arr items) (Num (Fin w)) (Num (Fin ov)) =
     Inr (map (\<lambda>i. filter (\<lambda>item. real i * (w - ov) \<le> offsetMs h items item
                               \<and> offsetMs h items item < real i * (w - ov) + w) items)
            [0..<nat \<lceil>totalDuration h items / (w - ov)\<rceil>])"
proof -
  have valid: "every (itemValid h) items = Inr True"
    and dates: "\<forall>item\<in>set items. \<not> isNaN (itemTime h item)"
    using assms(1) by (simp_all add: validSeries_def list_all_iff)
  have range: "\<forall>item\<in>set items. \<bar>timeMs h item\<bar> \<le> 2 ^ 51"
    and w: "w \<in> \<int>" "w \<le> 2 ^ 51" and ov: "ov \<in> \<int>" "\<bar>ov\<bar> \<le> 2 ^ 51"
    using assms(5) by (simp_all add: wholeMilliseconds_def list_all_iff isInteger_Ints)
  have "makeWindows h items (Fin w) (Fin ov) =
     Inr (map (\<lambda>i. filter (\<lambda>item. real i * (w - ov) \<le> offsetMs h items item
                               \<and> offsetMs h items item < real i * (w - ov) + w) items)
            [0..<nat \<lceil>totalDuration h items / (w - ov)\<rceil>])"
    using assms(2) dates range w(1) assms(3) w(2) ov assms(4) assms(6)
    by (rule makeWindows_exact)
  then show ?thesis
    using valid assms(3,4) by (simp add: getWindows_def toNumber_def)
qed

text \<open>An infinite window size passes the checks and yields no window.\<close>

lemma getWindows_infinite:
  assumes "validSeries h items" "items \<noteq> []" "wholeMilliseconds h items w ov"
  shows "getWindows eng h (Arr items) (Num PInf) (Num (Fin ov)) = Inr []"
proof -
  have valid: "every (itemValid h) items = Inr True"
    and dates: "\<forall>item\<in>set items. \<not> isNaN (itemTime h item)"
    using assms(1) by (simp_all add: validSeries_def list_all_iff)
  have range: "\<forall>item\<in>set items. \<bar>timeMs h item\<bar> \<le> 2 ^ 51"
    using assms(3) by (simp_all add: wholeMilliseconds_def list_all_iff)
  have first: "hd items \<in> set items" and lst: "last items \<in> set items"
    using assms(2) by simp_all
  have tf: "itemTime h (hd items) = Fin (timeMs h (hd items))"
    and tl: "itemTime h (last items) = Fin (timeMs h (last items))"
    using dates itemTime_Fin first lst by blast+
  have "\<bar>timeMs h (hd items)\<bar> \<le> 2 ^ 51" "\<bar>timeMs h (last items)\<bar> \<le> 2 ^ 51"
    using range first lst by blast+
  then have "\<bar>timeMs h (last items) - timeMs h (hd items)\<bar> < 2 ^ 53" by simp
  then have "js_sub (Fin (timeMs h (last items))) (Fin (timeMs h (hd items)))
      = Fin (timeMs h (last items) - timeMs h (hd items))"
    by (intro js_sub_int timeMs_Ints)
  then have duration: "js_sub (itemTime h (last items)) (itemTime h (hd items))
      = Fin (timeMs h (last items) - timeMs h (hd items))"
    by (simp only: tf tl)
  have stride: "js_sub PInf (Fin ov) = PInf" by (simp add: js_sub_def)
  have "amountOfWindows h items PInf (Fin ov) = Fin 0"
    by (simp add: amountOfWindows_def Let_def duration stride)
  then have "makeWindows h items PInf (Fin ov) = Inr []"
    using assms(2) by (cases items) (simp_all add: makeWindows_def)
  then show ?thesis
    using valid by (simp add: getWindows_def toNumber_def js_ge_def)
qed

lemma secondsData_valid: "validSeries secondsData secondsItems"
  by (simp add: validSeries_def secondsData_def secondsItems_def itemValid_def itemTime_def deref_def)

lemma secondsData_duration: "totalDuration secondsData secondsItems = 8000"
  by (simp add: totalDuration_def timeMs_def secondsData_def secondsItems_def itemTime_def deref_def)

lemma secondsData_ordered: "timeOrdered secondsData secondsItems"
  by (simp add: timeOrdered_def timeMs_def secondsData_def secondsItems_def itemTime_def deref_def)

lemma secondsData_whole: "wholeMilliseconds secondsData secondsItems 3000 1500"
  by (simp add: wholeMilliseconds_def isInteger_def timeMs_def secondsData_def secondsItems_def
        itemTime_def deref_def)

lemma secondsData_windows:
  "getWindows eng secondsData (Arr secondsItems) (Num (Fin 3000)) (Num (Fin 1500))
     = Inr [[Ref 1, Ref 3, Ref 5], [Ref 5, Ref 7, Ref 9], [Ref 7, Ref 9], [], [Ref 11], [Ref 11]]"
  by (simp add: evals secondsData_def secondsItems_def)

text \<open>The repository's test of the default overlap: the same records with window size
  3000 and no third argument.\<close>

lemma secondsData_default_overlap:
  "getWindows eng secondsData (Arr secondsItems) (Num (Fin 3000)) Undefined
     = Inr [[Ref 1, Ref 3, Ref 5], [Ref 7, Ref 9], [Ref 11]]"
  by (simp add: evals secondsData_def secondsItems_def)

lemma boundaryData_valid: "validSeries boundaryData boundaryItems"
  by (simp add: validSeries_def boundaryData_def boundaryItems_def itemValid_def itemTime_def
        deref_def)

lemma boundaryData_duration: "totalDuration boundaryData boundaryItems = 3000"
  by (simp add: totalDuration_def timeMs_def boundaryData_def boundaryItems_def itemTime_def
        deref_def)

lemma boundaryData_whole: "wholeMilliseconds boundaryData boundaryItems 3000 1500"
  by (simp add: wholeMilliseconds_def isInteger_def timeMs_def boundaryData_def boundaryItems_def
        itemTime_def deref_def)

lemma exact_facts:
  assumes "wholeMilliseconds h items w ov" "items \<noteq> []" "0 < w" "ov < w"
  shows "w \<in> \<int>" "w \<le> 2 ^ 51" "w - ov \<in> \<int>" "totalDuration h items \<le> 2 ^ 52"
    and "js_sub (Fin w) (Fin ov) = Fin (w - ov)"
proof -
  have range: "\<forall>item\<in>set items. \<bar>timeMs h item\<bar> \<le> 2 ^ 51"
    and w: "w \<in> \<int>" "w \<le> 2 ^ 51" and ov: "ov \<in> \<int>" "\<bar>ov\<bar> \<le> 2 ^ 51"
    using assms(1) by (simp_all add: wholeMilliseconds_def list_all_iff isInteger_Ints)
  show "w \<in> \<int>" "w \<le> 2 ^ 51" by fact+
  show "w - ov \<in> \<int>" using w(1) ov(1) by (rule Ints_diff)
  have "\<bar>timeMs h (hd items)\<bar> \<le> 2 ^ 51" "\<bar>timeMs h (last items)\<bar> \<le> 2 ^ 51"
    using range assms(2) by simp_all
  then show "totalDuration h items \<le> 2 ^ 52" by (simp add: totalDuration_def)
  have "\<bar>w - ov\<bar> < 2 ^ 53" using w(2) ov(2) assms(3) by simp
  then show "js_sub (Fin w) (Fin ov) = Fin (w - ov)" using w(1) ov(1) by (intro js_sub_int)
qed

section \<open>Degenerate and malformed input of the estimator\<close>

lemma single_windows:
  assumes "deref h a = Some (DateObj t)"
  shows "getWindows eng (h @ [Object [(''value'', Num v), (''date'', Ref a)]]) (Arr [Ref (length h)])
           (Num yearInMs) (Num (js_div yearInMs (Fin 2))) = Inr []"
proof -
  let ?h = "h @ [Object [(''value'', Num v), (''date'', Ref a)]]"
  have new: "deref ?h (length h) = Some (Object [(''value'', Num v), (''date'', Ref a)])"
    using deref_append_new [of 0 "[Object [(''value'', Num v), (''date'', Ref a)]]" h] by simp
  have old: "deref ?h a = Some (DateObj t)"
    using assms by (rule deref_append_old)
  have valid: "itemValid ?h (Ref (length h)) = Inr True"
    by (simp add: itemValid_def new old)
  have time: "itemTime ?h (Ref (length h)) = getTime t"
    by (simp add: itemTime_def new old)
  have "js_sub (getTime t) (getTime t) = NaN \<or> js_sub (getTime t) (getTime t) = Fin 0"
    by (cases t) (simp_all add: js_sub_def binary64_def)
  then have "toLength (amountOfWindows ?h [Ref (length h)] yearInMs (Fin 15768000000)) = Some 0"
    by (auto simp: amountOfWindows_def time year_stride binary64_def)
  then show ?thesis
    by (simp add: getWindows_def makeWindows_def valid half_year year_checks toNumber_def)
qed

text \<open>
  C6. Given exactly one Number and one \<open>Date\<close> (valid or not), the estimator returns
  \<open>NaN\<close> as a value: the series spans no time, so there is no window, both sums are 0
  and the result is \<open>0 / 0\<close>. Nothing is raised.
\<close>

theorem single_observation_NaN:
  assumes "deref h a = Some (DateObj t)"
  shows "getLinearRegressionCAGR eng h (Arr [Num v]) (Arr [Ref a]) = Inr NaN"
  using single_windows [OF assms, of eng v]
  by (simp add: getLinearRegressionCAGR_def ensureArray_def mergedData_def
        validGrowthRates_def growthRates_def validRates_def average_def)

theorem single_observation_NaN_witness:
  "\<forall>eng. deref [DateObj (Some 1704067200000)] 0 = Some (DateObj (Some 1704067200000))
     \<and> getLinearRegressionCAGR eng [DateObj (Some 1704067200000)] (Arr [Num (Fin 1)]) (Arr [Ref 0])
         = Inr NaN"
  using single_observation_NaN [of "[DateObj (Some 1704067200000)]" 0 "Some 1704067200000" _ "Fin 1"]
  by (simp add: deref_def)

text \<open>
  C7. Two arrays of different lengths make the estimator raise the length-mismatch
  error, which carries both lengths; this is decided before the records are merged and
  before any window or regression is computed. In particular, no values against one date
  raise it with the lengths 0 and 1.
\<close>

theorem length_mismatch:
  "length values \<noteq> length timestamps \<Longrightarrow>
     getLinearRegressionCAGR eng h (Arr values) (Arr timestamps)
       = Inl (LengthMismatchError (length values) (length timestamps))"
  by (simp add: getLinearRegressionCAGR_def ensureArray_def)

theorem length_mismatch_witness:
  "\<forall>eng. length ([] :: jsval list) \<noteq> length [Ref 0]
     \<and> getLinearRegressionCAGR eng [DateObj (Some 1704067200000)] (Arr []) (Arr [Ref 0])
         = Inl (LengthMismatchError 0 1)"
  using length_mismatch [of "[]" "[Ref 0]" _ "[DateObj (Some 1704067200000)]"] by simp

text \<open>
  C9. An empty array passes the three checks of \<open>getWindows\<close> (given a positive window
  size and an overlap, explicit or defaulted, whose numeric value is smaller) and then
  fails with a \<open>TypeError\<close> on reading the date of its first element; it does not return
  an empty list of windows. The estimator called with two empty arrays passes its length
  check and fails the same way instead of returning \<open>NaN\<close>.
\<close>

theorem getWindows_empty_fails:
  "(\<not> js_le ws (Fin 0)
      \<and> toNumber eng h (if overlapArg = Undefined then Num (Fin 0) else overlapArg) = Inr ov
      \<and> \<not> js_ge ov ws
      \<longrightarrow> getWindows eng h (Arr []) (Num ws) overlapArg = Inl TypeError)
   \<and> getLinearRegressionCAGR eng h (Arr []) (Arr []) = Inl TypeError"
  by (simp add: getWindows_def makeWindows_def getLinearRegressionCAGR_def ensureArray_def
        mergedData_def half_year year_checks toNumber_def)

theorem getWindows_empty_fails_witness:
  "\<forall>eng. \<not> js_le (Fin 3000) (Fin 0)
     \<and> toNumber eng [] (if Num (Fin 1500) = Undefined then Num (Fin 0) else Num (Fin 1500))
         = Inr (Fin 1500)
     \<and> \<not> js_ge (Fin 1500) (Fin 3000)
     \<and> getWindows eng [] (Arr []) (Num (Fin 3000)) (Num (Fin 1500)) = Inl TypeError
     \<and> getLinearRegressionCAGR eng [] (Arr []) (Arr []) = Inl TypeError"
  using getWindows_empty_fails [of "Fin 3000" _ "[]" "Num (Fin 1500)" "Fin 1500"]
  by (simp add: toNumber_def)

section \<open>Number, position and content of the windows\<close>



text \<open>
  C3, as stated, fails: a single record spans no time, \<open>ceil(0 / stride)\<close> is 0, and no
  window is returned.
\<close>

theorem single_observation_no_window:
  "\<forall>eng. getWindows eng singleData (Arr [Ref 1]) (Num (Fin 3000)) (Num (Fin 1500)) = Inr []"
  by (simp add: evals singleData_def)

text \<open>
  C3, amended. For a non-empty valid series, with window size, overlap and time values
  in whole milliseconds within the range where the engine's arithmetic is exact and
  fewer than \<open>2^32\<close> windows, \<open>getWindows\<close> returns \<open>ceil(T / stride)\<close> windows: none when
  the total span \<open>T\<close> is 0 (a single record, or all records sharing one time value), and at
  least one whenever \<open>T\<close> is positive. With an infinite window size, which passes the
  checks, it returns no window whatever the span.
\<close>

theorem window_count_by_span:
  assumes "validSeries h items" "items \<noteq> []" "0 < w" "ov < w"
    and "wholeMilliseconds h items w ov"
    and "\<lceil>totalDuration h items / (w - ov)\<rceil> < 2 ^ 32"
  shows "(\<exists>wins. getWindows eng h (Arr items) (Num (Fin w)) (Num (Fin ov)) = Inr wins
           \<and> length wins = nat \<lceil>totalDuration h items / (w - ov)\<rceil>
           \<and> (totalDuration h items = 0 \<longrightarrow> wins = [])
           \<and> (0 < totalDuration h items \<longrightarrow> 1 \<le> length wins))
         \<and> getWindows eng h (Arr items) (Num PInf) (Num (Fin ov)) = Inr []"
proof -
  have "0 < totalDuration h items \<Longrightarrow> 1 \<le> nat \<lceil>totalDuration h items / (w - ov)\<rceil>"
    using assms(4) by (intro count_pos) simp_all
  then have "\<exists>wins. getWindows eng h (Arr items) (Num (Fin w)) (Num (Fin ov)) = Inr wins
           \<and> length wins = nat \<lceil>totalDuration h items / (w - ov)\<rceil>
           \<and> (totalDuration h items = 0 \<longrightarrow> wins = [])
           \<and> (0 < totalDuration h items \<longrightarrow> 1 \<le> length wins)"
    using getWindows_exact [OF assms] by simp
  then show ?thesis
    using getWindows_infinite [OF assms(1,2,5)] by simp
qed

theorem window_count_by_span_witness:
  "\<forall>eng. validSeries boundaryData boundaryItems \<and> boundaryItems \<noteq> [] \<and> (0::real) < 3000
   \<and> (1500::real) < 3000 \<and> wholeMilliseconds boundaryData boundaryItems 3000 1500
   \<and> \<lceil>totalDuration boundaryData boundaryItems / (3000 - 1500)\<rceil> < 2 ^ 32
   \<and> 0 < totalDuration boundaryData boundaryItems
   \<and> (\<exists>wins. getWindows eng boundaryData (Arr boundaryItems) (Num (Fin 3000)) (Num (Fin 1500)) = Inr wins
           \<and> length wins = nat \<lceil>totalDuration boundaryData boundaryItems / (3000 - 1500)\<rceil>
           \<and> (totalDuration boundaryData boundaryItems = 0 \<longrightarrow> wins = [])
           \<and> (0 < totalDuration boundaryData boundaryItems \<longrightarrow> 1 \<le> length wins))
   \<and> getWindows eng boundaryData (Arr boundaryItems) (Num PInf) (Num (Fin 1500)) = Inr []"
proof
  fix eng
  have hyp: "validSeries boundaryData boundaryItems" "boundaryItems \<noteq> []"
    "(0::real) < 3000" "(1500::real) < 3000"
    "wholeMilliseconds boundaryData boundaryItems 3000 1500"
    "\<lceil>totalDuration boundaryData boundaryItems / (3000 - 1500)\<rceil> < 2 ^ 32"
    using boundaryData_valid boundaryData_whole
    by (simp_all add: boundaryData_duration) (simp add: boundaryItems_def)
  have pos: "0 < totalDuration boundaryData boundaryItems"
    by (simp add: boundaryData_duration)
  show "validSeries boundaryData boundaryItems \<and> boundaryItems \<noteq> [] \<and> (0::real) < 3000
   \<and> (1500::real) < 3000 \<and> wholeMilliseconds boundaryData boundaryItems 3000 1500
   \<and> \<lceil>totalDuration boundaryData boundaryItems / (3000 - 1500)\<rceil> < 2 ^ 32
   \<and> 0 < totalDuration boundaryData boundaryItems
   \<and> (\<exists>wins. getWindows eng boundaryData (Arr boundaryItems) (Num (Fin 3000)) (Num (Fin 1500)) = Inr wins
           \<and> length wins = nat \<lceil>totalDuration boundaryData boundaryItems / (3000 - 1500)\<rceil>
           \<and> (totalDuration boundaryData boundaryItems = 0 \<longrightarrow> wins = [])
           \<and> (0 < totalDuration boundaryData boundaryItems \<longrightarrow> 1 \<le> length wins))
   \<and> getWindows eng boundaryData (Arr boundaryItems) (Num PInf) (Num (Fin 1500)) = Inr []"
    using hyp pos window_count_by_span [OF hyp, of eng] by blast
qed

text \<open>
  C5, as stated, fails: with the default overlap 0 and two records exactly one window
  size apart there is one window, \<open>[0, 3000)\<close>; its end does not exceed the offset 3000
  of the last record, which falls in no window.
\<close>

theorem last_observation_uncovered:
  "\<forall>eng. getWindows eng boundaryData (Arr boundaryItems) (Num (Fin 3000)) Undefined = Inr [[Ref 1]]
   \<and> \<not> js_lt (Fin (offsetMs boundaryData boundaryItems (last boundaryItems)))
              (windowEnd 0 (js_sub (Fin 3000) (Fin 0)) (Fin 3000))"
  by (simp add: evals boundaryData_def boundaryItems_def offsetMs_def timeMs_def)

text \<open>
  C5, amended. For a non-empty valid series of positive span \<open>T\<close>, a finite window size
  and an overlap with \<open>0 <= overlap < window size\<close>, all in whole milliseconds within the
  range where the engine's arithmetic is exact, and fewer than \<open>2^32\<close> windows: unless the
  overlap is 0 and \<open>T\<close> is an exact multiple of the stride, the end of the last window
  strictly exceeds the offset of the last record; if moreover the series is
  time-ordered, every record falls inside some window.
\<close>

theorem last_window_covers:
  assumes valid: "validSeries h items" and ne: "items \<noteq> []"
    and span: "0 < totalDuration h items"
    and w: "0 < w" and ov: "0 \<le> ov" "ov < w"
    and whole: "wholeMilliseconds h items w ov"
    and count: "\<lceil>totalDuration h items / (w - ov)\<rceil> < 2 ^ 32"
    and exact: "0 < ov \<or> totalDuration h items / (w - ov) \<notin> \<int>"
  shows "\<exists>wins. getWindows eng h (Arr items) (Num (Fin w)) (Num (Fin ov)) = Inr wins
           \<and> wins \<noteq> []
           \<and> js_lt (Fin (offsetMs h items (last items)))
                   (windowEnd (length wins - 1) (js_sub (Fin w) (Fin ov)) (Fin w))
           \<and> (timeOrdered h items \<longrightarrow> (\<forall>item\<in>set items. \<exists>win\<in>set wins. item \<in> set win))"
proof -
  let ?s = "w - ov"
  let ?T = "totalDuration h items"
  let ?n = "nat \<lceil>?T / ?s\<rceil>"
  let ?win = "\<lambda>i. filter (\<lambda>item. real i * ?s \<le> offsetMs h items item
                               \<and> offsetMs h items item < real i * ?s + w) items"
  have s: "0 < ?s" "?s \<le> w" using ov by simp_all
  note facts = exact_facts [OF whole ne w ov(2)]
  have wins: "getWindows eng h (Arr items) (Num (Fin w)) (Num (Fin ov)) = Inr (map ?win [0..<?n])"
    using getWindows_exact [OF valid ne w ov(2) whole count] .
  have n1: "1 \<le> ?n" using count_pos [OF s(1) span] .
  have "?n - 1 < ?n" using n1 by linarith
  then have below: "real (?n - 1) * ?s < ?T" using s(1) by (intro start_below_span)
  have lastEnd: "windowEnd (?n - 1) (js_sub (Fin w) (Fin ov)) (Fin w) = Fin (real (?n - 1) * ?s + w)"
    unfolding facts(5)
    using windowBounds_exact(2) [OF facts(3) s(1) facts(1) w facts(2) facts(4) below] .
  have "?s < w \<or> ?T / ?s \<notin> \<int>" using exact by auto
  then have strict: "?T < real (?n - 1) * ?s + w"
    using last_end_gt [OF s(1) span s(2)] by blast
  then have "js_lt (Fin ?T) (Fin (real (?n - 1) * ?s + w))" by simp
  then have "js_lt (Fin ?T) (windowEnd (?n - 1) (js_sub (Fin w) (Fin ov)) (Fin w))"
    by (simp only: lastEnd)
  moreover have "offsetMs h items (last items) = ?T"
    by (simp only: offsetMs_def totalDuration_def)
  moreover have "length (map ?win [0..<?n]) = ?n" by simp
  ultimately have "js_lt (Fin (offsetMs h items (last items)))
               (windowEnd (length (map ?win [0..<?n]) - 1) (js_sub (Fin w) (Fin ov)) (Fin w))"
    by (simp only:)
  moreover have "\<exists>win\<in>set (map ?win [0..<?n]). item \<in> set win"
    if "timeOrdered h items" "item \<in> set items" for item
  proof -
    have "0 \<le> offsetMs h items item" "offsetMs h items item \<le> ?T"
      using that by (auto simp: timeOrdered_def list_all_iff offsetMs_def totalDuration_def)
    then obtain i where "i < ?n" "real i * ?s \<le> offsetMs h items item"
        "offsetMs h items item < real i * ?s + w"
      using cover_window [OF s, of "offsetMs h items item" ?T] span strict by blast
    then show ?thesis using that by (intro bexI [of _ "?win i"]) auto
  qed
  moreover have "map ?win [0..<?n] \<noteq> []"
  proof -
    have "0 < ?n" using n1 by linarith
    then show ?thesis by (rule map_upt_nonempty)
  qed
  ultimately show ?thesis using wins by blast
qed

theorem last_window_covers_witness:
  "\<forall>eng. validSeries secondsData secondsItems \<and> secondsItems \<noteq> []
   \<and> timeOrdered secondsData secondsItems
   \<and> 0 < totalDuration secondsData secondsItems \<and> (0::real) < 3000 \<and> (0::real) < 1500
   \<and> (1500::real) < 3000 \<and> wholeMilliseconds secondsData secondsItems 3000 1500
   \<and> \<lceil>totalDuration secondsData secondsItems / (3000 - 1500)\<rceil> < 2 ^ 32
   \<and> (\<exists>wins. getWindows eng secondsData (Arr secondsItems) (Num (Fin 3000)) (Num (Fin 1500)) = Inr wins
           \<and> wins \<noteq> []
           \<and> js_lt (Fin (offsetMs secondsData secondsItems (last secondsItems)))
                   (windowEnd (length wins - 1) (js_sub (Fin 3000) (Fin 1500)) (Fin 3000))
           \<and> (\<forall>item\<in>set secondsItems. \<exists>win\<in>set wins. item \<in> set win))"
proof
  fix eng
  have hyp: "validSeries secondsData secondsItems" "secondsItems \<noteq> []"
    "0 < totalDuration secondsData secondsItems" "(0::real) < 3000" "(0::real) \<le> 1500"
    "(1500::real) < 3000" "wholeMilliseconds secondsData secondsItems 3000 1500"
    "\<lceil>totalDuration secondsData secondsItems / (3000 - 1500)\<rceil> < 2 ^ 32"
    "(0::real) < 1500 \<or> totalDuration secondsData secondsItems / (3000 - 1500) \<notin> \<int>"
    using secondsData_valid secondsData_whole
    by (simp_all add: secondsData_duration) (simp add: secondsItems_def)
  show "validSeries secondsData secondsItems \<and> secondsItems \<noteq> []
   \<and> timeOrdered secondsData secondsItems
   \<and> 0 < totalDuration secondsData secondsItems \<and> (0::real) < 3000 \<and> (0::real) < 1500
   \<and> (1500::real) < 3000 \<and> wholeMilliseconds secondsData secondsItems 3000 1500
   \<and> \<lceil>totalDuration secondsData secondsItems / (3000 - 1500)\<rceil> < 2 ^ 32
   \<and> (\<exists>wins. getWindows eng secondsData (Arr secondsItems) (Num (Fin 3000)) (Num (Fin 1500)) = Inr wins
           \<and> wins \<noteq> []
           \<and> js_lt (Fin (offsetMs secondsData secondsItems (last secondsItems)))
                   (windowEnd (length wins - 1) (js_sub (Fin 3000) (Fin 1500)) (Fin 3000))
           \<and> (\<forall>item\<in>set secondsItems. \<exists>win\<in>set wins. item \<in> set win))"
    using hyp secondsData_ordered last_window_covers [OF hyp, of eng] by auto
qed

text \<open>
  Outside whole milliseconds the number and the bounds of the windows are the rounded
  values of the same expressions. Over exactly one year, a window size of the double
  nearest to a thirteenth of a year is slightly less than that thirteenth; the quotient
  of span and stride, slightly above 13, rounds to 13, and the thirteen windows end
  before the second record.
\<close>

lemmas round_evals = binary64_def exponentOf_def roundHalfEven_def compute_bitlen
  power_int_minus Let_def

lemma thirteenth_of_year: "binary64 (31536000000 / 13) = Fin (5087368113230769 / 2097152)"
  by (simp add: round_evals)

lemma fractional_window_size:
  "getWindows eng yearData (Arr [Ref 1, Ref 3]) (Num (binary64 (31536000000 / 13))) Undefined
     = Inr [[Ref 1], [], [], [], [], [], [], [], [], [], [], [], []]"
  unfolding thirteenth_of_year
  by (simp add: getWindows_def makeWindows_def amountOfWindows_def itemValid_def itemTime_def
        deref_def inWindow_def windowStart_def windowEnd_def toNumber_def js_sub_Fin
        upt_conv_Cons yearData_def round_evals)

section \<open>Validation\<close>

text \<open>The repository's tests of invalid arguments: a Number for \<open>data\<close>, a record whose
  date is a Number, a string and 0 for the window size, and an overlap above the window
  size.\<close>

lemma test_invalid_arguments:
  "getWindows eng [] (Num (Fin 5)) Undefined Undefined = Inl (DataError (Num (Fin 5)))"
  "getWindows eng [Object [(''date'', Num (Fin 7)), (''value'', Num (Fin 3))]] (Arr [Ref 0])
     Undefined Undefined = Inl (DataError (Arr [Ref 0]))"
  "getWindows eng [] (Arr []) (Str ''500'') Undefined = Inl (WindowSizeError (Str ''500''))"
  "getWindows eng [] (Arr []) (Num (Fin 0)) Undefined = Inl (WindowSizeError (Num (Fin 0)))"
  "getWindows eng [] (Arr []) (Num (Fin 100)) (Num (Fin 200))
     = Inl (OverlapError (Num (Fin 200)) (Num (Fin 100)))"
  by (simp_all add: evals JSON_stringify_returns_def)

text \<open>
  C8 does not hold of the code: the checks of lines 14--26 let arguments through that
  violate the stated preconditions, and raise errors other than the three validation
  errors. An empty array passes all three checks and the call then raises a \<open>TypeError\<close>
  instead of returning. An array holding \<open>null\<close> violates the precondition on \<open>data\<close> but
  raises a \<open>TypeError\<close> from inside the check, not the validation error. A window size of
  \<open>NaN\<close> is not a positive number, yet passes the check, and the call returns no window.
  An array holding an object that refers to itself fails the check, and building the
  message of the validation error raises a \<open>TypeError\<close> in its place. Two records one year
  apart with a window size of 1 ms satisfy every precondition, and the call raises a
  \<open>RangeError\<close>.
\<close>

theorem validation_gaps:
  "getWindows eng [] (Arr []) (Num (Fin 3000)) Undefined = Inl TypeError
   \<and> getWindows eng [] (Arr [Null]) (Num (Fin 3000)) Undefined = Inl TypeError
   \<and> getWindows eng secondsData (Arr secondsItems) (Num NaN) Undefined = Inr []
   \<and> getWindows eng cyclicData (Arr [Ref 0]) (Num (Fin 3000)) Undefined = Inl TypeError
   \<and> getWindows eng yearData (Arr [Ref 1, Ref 3]) (Num (Fin 1)) Undefined = Inl RangeError"
proof (intro conjI)
  show "getWindows eng [] (Arr []) (Num (Fin 3000)) Undefined = Inl TypeError"
    by (simp add: evals)
  show "getWindows eng [] (Arr [Null]) (Num (Fin 3000)) Undefined = Inl TypeError"
    by (simp add: evals)
  show "getWindows eng secondsData (Arr secondsItems) (Num NaN) Undefined = Inr []"
    by (simp add: evals secondsData_def secondsItems_def js_ge_def js_sub_def)
  show "getWindows eng cyclicData (Arr [Ref 0]) (Num (Fin 3000)) Undefined = Inl TypeError"
    by (simp add: evals cyclicData_def JSON_stringify_returns_def)
  show "getWindows eng yearData (Arr [Ref 1, Ref 3]) (Num (Fin 1)) Undefined = Inl RangeError"
    by (simp add: evals yearData_def)
qed

section \<open>Windows share the records of the input\<close>

text \<open>
  C10. Every window returned by \<open>getWindows\<close> is a subsequence of the input array, in the
  input's order, and each of its elements is an element of the input: a reference to a
  record that the caller's store already holds, not a copy. \<open>getWindows\<close> is a function
  of the store and returns none: the source assigns to nothing and calls no mutating
  method, so neither the input nor a window changes.
\<close>

theorem windows_subseq:
  assumes "getWindows eng h (Arr items) windowSizeInMs overlapArg = Inr wins"
  shows "\<forall>win\<in>set wins. subseq win items
            \<and> (\<forall>x\<in>set win. x \<in> set items
                   \<and> (\<exists>a fs. x = Ref a \<and> deref h a = Some (Object fs)))"
proof -
  have valid: "every (itemValid h) items = Inr True"
    using assms by (auto simp: getWindows_def Let_def split: sum.splits if_splits)
  have "\<exists>ws ov. makeWindows h items ws ov = Inr wins"
    using assms
    by (auto simp: getWindows_def Let_def split: sum.splits if_splits jsval.splits)
  then obtain ws ov where "makeWindows h items ws ov = Inr wins" by blast
  then have "\<exists>n P. wins = map (\<lambda>index. filter (P index) items) [0..<n]"
    by (auto simp: makeWindows_def Let_def split: list.splits option.splits)
  then obtain n P where wins: "wins = map (\<lambda>index. filter (P index) items) [0..<n]" by blast
  have "\<exists>a fs. x = Ref a \<and> deref h a = Some (Object fs)" if "x \<in> set items" for x
    using valid that itemValid_shape [of h x] by (auto simp: every_True_iff)
  then show ?thesis unfolding wins by auto
qed

theorem windows_subseq_witness:
  "\<forall>eng. getWindows eng secondsData (Arr secondsItems) (Num (Fin 3000)) (Num (Fin 1500))
     = Inr [[Ref 1, Ref 3, Ref 5], [Ref 5, Ref 7, Ref 9], [Ref 7, Ref 9], [], [Ref 11], [Ref 11]]
   \<and> list_all (\<lambda>win. subseq win secondsItems
                 \<and> (\<forall>x\<in>set win. x \<in> set secondsItems
                        \<and> (\<exists>a fs. x = Ref a \<and> deref secondsData a = Some (Object fs))))
        [[Ref 1, Ref 3, Ref 5], [Ref 5, Ref 7, Ref 9], [Ref 7, Ref 9], [], [Ref 11], [Ref 11]]"
  unfolding list_all_iff
  using secondsData_windows windows_subseq [OF secondsData_windows]
  by (intro allI conjI)

section \<open>The regression model\<close>

text \<open>The closed form that \<open>SimpleLinearRegression\<close> evaluates is, in exact arithmetic, the
  least-squares fit: on points with at least two different x values no other line has a
  smaller sum of squared residuals. The engine evaluates it with rounding.\<close>

lemma residuals_expand:
  "squaredResiduals a b points =
     (\<Sum>(x, y)\<leftarrow>points. y * y) - 2 * a * (\<Sum>(x, y)\<leftarrow>points. y)
       - 2 * b * (\<Sum>(x, y)\<leftarrow>points. x * y) + real (length points) * a * a
       + 2 * a * b * (\<Sum>(x, y)\<leftarrow>points. x) + b * b * (\<Sum>(x, y)\<leftarrow>points. x * x)"
  by (induction points) (auto simp: squaredResiduals_def algebra_simps power2_eq_square)

lemma member_le_sum_list_real:
  fixes zs :: "real list"
  assumes "\<forall>z\<in>set zs. 0 \<le> z" "z \<in> set zs"
  shows "z \<le> sum_list zs"
  using assms
proof (induction zs)
  case Nil
  then show ?case by simp
next
  case (Cons a zs)
  have "0 \<le> sum_list zs" using Cons.prems(1) by (simp add: sum_list_nonneg)
  moreover have "0 \<le> a" using Cons.prems(1) by simp
  ultimately show ?case using Cons by auto
qed

lemma spread_expand:
  fixes xs :: "real list"
  shows "(\<Sum>x\<leftarrow>xs. (x - m) * (x - m)) =
           (\<Sum>x\<leftarrow>xs. x * x) - 2 * m * sum_list xs + real (length xs) * m * m"
  by (induction xs) (auto simp: algebra_simps)

lemma spread_pos:
  fixes xs :: "real list"
  assumes "x \<in> set xs" "x' \<in> set xs" "x \<noteq> x'"
  shows "0 < real (length xs) * (\<Sum>x\<leftarrow>xs. x * x) - sum_list xs * sum_list xs"
proof -
  let ?n = "real (length xs)"
  let ?m = "sum_list xs / ?n"
  have n: "0 < ?n" using assms(1) by (cases xs) auto
  obtain z where z: "z \<in> set xs" "z \<noteq> ?m" using assms by metis
  have nonneg: "\<forall>v\<in>set (map (\<lambda>x. (x - ?m) * (x - ?m)) xs). 0 \<le> v" by auto
  have "(z - ?m) * (z - ?m) \<in> set (map (\<lambda>x. (x - ?m) * (x - ?m)) xs)" using z(1) by auto
  then have "(z - ?m) * (z - ?m) \<le> (\<Sum>x\<leftarrow>xs. (x - ?m) * (x - ?m))"
    using nonneg by (rule member_le_sum_list_real [rotated])
  moreover have "0 < (z - ?m) * (z - ?m)"
    using z(2) zero_less_power2 [of "z - ?m"] by (simp add: power2_eq_square)
  ultimately have "0 < (\<Sum>x\<leftarrow>xs. (x - ?m) * (x - ?m))" by linarith
  then have "0 < (\<Sum>x\<leftarrow>xs. x * x) - 2 * ?m * sum_list xs + ?n * ?m * ?m"
    by (simp only: spread_expand)
  then have "0 < ?n * ((\<Sum>x\<leftarrow>xs. x * x) - 2 * ?m * sum_list xs + ?n * ?m * ?m)"
    using n by simp
  moreover have "?n * ((\<Sum>x\<leftarrow>xs. x * x) - 2 * ?m * sum_list xs + ?n * ?m * ?m)
      = ?n * (\<Sum>x\<leftarrow>xs. x * x) - sum_list xs * sum_list xs"
    using n by (simp add: field_simps)
  ultimately show ?thesis by simp
qed

lemma quadratic_form_nonneg:
  fixes n Sx Sxx \<alpha> \<beta> :: real
  assumes "0 < n" "0 \<le> n * Sxx - Sx * Sx"
  shows "0 \<le> n * \<alpha> * \<alpha> + 2 * Sx * \<alpha> * \<beta> + Sxx * \<beta> * \<beta>"
proof -
  have "n * (n * \<alpha> * \<alpha> + 2 * Sx * \<alpha> * \<beta> + Sxx * \<beta> * \<beta>)
      = (n * \<alpha> + Sx * \<beta>) * (n * \<alpha> + Sx * \<beta>) + \<beta> * \<beta> * (n * Sxx - Sx * Sx)"
    by (simp add: algebra_simps)
  moreover have "0 \<le> (n * \<alpha> + Sx * \<beta>) * (n * \<alpha> + Sx * \<beta>) + \<beta> * \<beta> * (n * Sxx - Sx * Sx)"
    using assms(2) by (simp add: mult_nonneg_nonneg)
  ultimately have "0 \<le> n * (n * \<alpha> * \<alpha> + 2 * Sx * \<alpha> * \<beta> + Sxx * \<beta> * \<beta>)" by simp
  then show ?thesis using assms(1) by (simp add: zero_le_mult_iff)
qed

lemma least_squares_real:
  fixes points :: "(real \<times> real) list" and n Sx Sy Sxx Sxy a b :: real
  assumes n_def: "real (length points) = n"
    and Sx_def: "(\<Sum>(x, y)\<leftarrow>points. x) = Sx" and Sy_def: "(\<Sum>(x, y)\<leftarrow>points. y) = Sy"
    and Sxx_def: "(\<Sum>(x, y)\<leftarrow>points. x * x) = Sxx"
    and Sxy_def: "(\<Sum>(x, y)\<leftarrow>points. x * y) = Sxy"
    and D: "0 < n * Sxx - Sx * Sx" and n: "0 < n"
    and b_def: "b = (n * Sxy - Sx * Sy) / (n * Sxx - Sx * Sx)"
    and a_def: "a = Sy / n - b * (Sx / n)"
  shows "squaredResiduals a b points \<le> squaredResiduals a' b' points"
proof -
  have N1: "Sy = n * a + b * Sx"
    using n by (simp add: a_def field_simps)
  have "b * (n * Sxx - Sx * Sx) = n * Sxy - Sx * Sy"
    using D by (simp add: b_def)
  then have "n * Sxy = n * (a * Sx + b * Sxx)"
    using n by (simp add: a_def field_simps)
  then have N2: "Sxy = a * Sx + b * Sxx" using n by simp
  let ?Syy = "(\<Sum>(x, y)\<leftarrow>points. y * y)"
  have Q: "squaredResiduals u v points =
      ?Syy - 2 * u * Sy - 2 * v * Sxy + n * u * u + 2 * u * v * Sx + v * v * Sxx" for u v
    using residuals_expand [of u v points]
    by (simp only: n_def Sx_def Sy_def Sxx_def Sxy_def)
  have "squaredResiduals a' b' points - squaredResiduals a b points
      = n * (a' - a) * (a' - a) + 2 * Sx * (a' - a) * (b' - b) + Sxx * (b' - b) * (b' - b)"
    unfolding Q N1 N2 by (simp add: algebra_simps)
  moreover have "0 \<le> n * (a' - a) * (a' - a) + 2 * Sx * (a' - a) * (b' - b) + Sxx * (b' - b) * (b' - b)"
    using n D by (intro quadratic_form_nonneg) simp_all
  ultimately show ?thesis by linarith
qed

section \<open>Growth rates and their aggregation\<close>

lemma growthRate_short: "length window < 2 \<Longrightarrow> growthRate h window = NaN"
  by (cases window) (simp_all add: growthRate_def SimpleLinearRegression_def)

lemma growthRate_elapsed:
  "growthRate h window =
     (let r = SimpleLinearRegression (elapsedYears h window) (map (itemValue h) window)
      in js_div (js_add (intercept r) (slope r)) (intercept r))"
  by (cases window) (simp_all add: growthRate_def elapsedYears_def)

lemma mapE_map:
  assumes "mapE f xs = Inr ys" and "\<And>x y. x \<in> set xs \<Longrightarrow> f x = Inr y \<Longrightarrow> g y = k x"
  shows "map g ys = map k xs"
  using assms
proof (induction xs arbitrary: ys)
  case Nil
  then show ?case by simp
next
  case (Cons x xs)
  then show ?case by (auto split: sum.splits)
qed

lemma withPartOfYear_rate: "withPartOfYear h windows ri = Inr y \<Longrightarrow> rate y = fst ri"
  by (cases ri) (auto simp: withPartOfYear_def split: if_splits list.splits)

lemma validRates_windows:
  "validRates (growthRates h windows) =
     map (\<lambda>w. js_sub (growthRate h w) (Fin 1)) (retainedWindows h windows)"
  by (simp add: validRates_def growthRates_def retainedWindows_def filter_map comp_def)

lemma validGrowthRates_rates:
  assumes "validGrowthRates h windows = Inr samples"
  shows "map rate samples =
     map (\<lambda>w. js_sub (growthRate h w) (Fin 1)) (retainedWindows h windows)"
proof -
  let ?rates = "validRates (growthRates h windows)"
  have "map rate samples = map fst (zip ?rates [0..<length ?rates])"
    using assms unfolding validGrowthRates_def Let_def
    by (rule mapE_map) (rule withPartOfYear_rate)
  also have "\<dots> = ?rates" by simp
  finally show ?thesis by (simp add: validRates_windows)
qed

text \<open>When the retained windows form a prefix of the list of windows, position \<open>index\<close>
  of the filtered rates and position \<open>index\<close> of the windows denote the same window, and
  the estimator's average is the time-weighted average of the spec.\<close>

lemma mapE_all_Inr:
  assumes "\<And>x. x \<in> set xs \<Longrightarrow> f x = Inr (g x)"
  shows "mapE f xs = Inr (map g xs)"
  using assms by (induction xs) simp_all

lemma average_sampleOf:
  "average (map (sampleOf h) ws) =
     js_div (js_sum (map (\<lambda>w. js_mul (js_sub (growthRate h w) (Fin 1)) (fractionOfYear h w)) ws))
            (js_sum (map (fractionOfYear h) ws))"
  by (simp add: average_def js_sum_def foldl_map sampleOf_def)

lemma retained_nonempty:
  assumes "w \<in> set (retainedWindows h windows)"
  shows "2 \<le> length w"
proof -
  have "\<not> isNaN (growthRate h w)" using assms by (simp add: retainedWindows_def)
  then show ?thesis using growthRate_short [of w h] by (cases "length w < 2") auto
qed

lemma withPartOfYear_aligned:
  assumes "index < length windows" "2 \<le> length (windows ! index)"
  shows "withPartOfYear h windows (js_sub (growthRate h (windows ! index)) (Fin 1), index)
           = Inr (sampleOf h (windows ! index))"
  using assms
  by (cases "windows ! index") (simp_all add: withPartOfYear_def sampleOf_def fractionOfYear_def)

lemma aligned_samples:
  assumes prefix: "retainedWindows h windows = take k windows"
  shows "validGrowthRates h windows = Inr (map (sampleOf h) (retainedWindows h windows))"
proof -
  let ?ret = "retainedWindows h windows"
  let ?rates = "validRates (growthRates h windows)"
  let ?n = "length ?ret"
  have rates: "?rates = map (\<lambda>w. js_sub (growthRate h w) (Fin 1)) ?ret"
    by (rule validRates_windows)
  have len: "length ?rates = ?n" by (simp add: rates)
  have nle: "?n \<le> length windows" by (simp add: retainedWindows_def)
  have nth: "?ret ! i = windows ! i" if "i < ?n" for i
    using that prefix by simp
  have each: "withPartOfYear h windows ri = Inr (sampleOf h (windows ! snd ri))"
    if mem: "ri \<in> set (zip ?rates [0..<?n])" for ri
  proof -
    obtain i where i: "i < ?n" "ri = (?rates ! i, i)"
      using mem len by (auto simp: set_zip)
    have w: "windows ! i \<in> set ?ret" using i(1) nth [of i] by (metis nth_mem)
    have "?rates ! i = js_sub (growthRate h (windows ! i)) (Fin 1)"
      using i(1) nth [of i] by (simp add: rates)
    then show ?thesis
      using i nle retained_nonempty [OF w] withPartOfYear_aligned [of i windows h] by simp
  qed
  have "validGrowthRates h windows
      = Inr (map (\<lambda>ri. sampleOf h (windows ! snd ri)) (zip ?rates [0..<?n]))"
    unfolding validGrowthRates_def Let_def len
    by (rule mapE_all_Inr) (rule each)
  also have "map (\<lambda>ri. sampleOf h (windows ! snd ri)) (zip ?rates [0..<?n])
      = map (sampleOf h) ?ret"
    using len nth by (auto intro!: nth_equalityI)
  finally show ?thesis .
qed

lemma aligned_average:
  assumes "retainedWindows h windows = take k windows"
    and "validGrowthRates h windows = Inr samples"
  shows "average samples = timeWeightedAverage h windows"
  using aligned_samples [OF assms(1)] assms(2)
  by (auto simp: average_sampleOf timeWeightedAverage_def)

lemma gap_merged: "mergedData gapDates gapValues gapTimestamps = (gapHeap, gapItems)"
  by (simp add: mergedData_def gapDates_def gapValues_def gapTimestamps_def gapHeap_def
        gapItems_def upt_conv_Cons)

lemma gap_windows:
  "getWindows eng gapHeap (Arr gapItems) (Num yearInMs) (Num (js_div yearInMs (Fin 2))) = Inr gapWindows"
  by (simp add: evals gapHeap_def gapDates_def gapItems_def gapWindows_def yearInMs_def)

lemmas regression_evals = growthRates_def growthRate_def SimpleLinearRegression_def js_sum_def
  Let_def fractionOfYear_def yearInMs_def

lemma gap_rates:
  "growthRates gapHeap gapWindows = [Fin 3, NaN, Fin 2, Fin 2]"
  by (simp add: regression_evals evals gapHeap_def gapDates_def gapWindows_def)

lemma gap_samples:
  "validGrowthRates gapHeap gapWindows =
     Inr [\<lparr>rate = Fin 2, partOfYear = Fin (1 / 2)\<rparr>,
          \<lparr>rate = Fin 1, partOfYear = Fin 0\<rparr>,
          \<lparr>rate = Fin 1, partOfYear = Fin (1 / 4)\<rparr>]"
  unfolding validGrowthRates_def gap_rates validRates_def
  by (simp add: withPartOfYear_def evals gapWindows_def gapHeap_def gapDates_def yearInMs_def)

lemma hole_merged: "mergedData holeDates gapValues gapTimestamps = (holeHeap, gapItems)"
  by (simp add: mergedData_def holeDates_def gapValues_def gapTimestamps_def holeHeap_def
        gapItems_def upt_conv_Cons)

lemma hole_windows:
  "getWindows eng holeHeap (Arr gapItems) (Num yearInMs) (Num (js_div yearInMs (Fin 2))) = Inr holeWindows"
  by (simp add: evals holeHeap_def holeDates_def gapItems_def holeWindows_def yearInMs_def)

lemma hole_rates:
  "growthRates holeHeap holeWindows = [Fin 5, NaN, Fin 2, Fin 2]"
  by (simp add: regression_evals evals holeHeap_def holeDates_def holeWindows_def)

lemma hole_samples: "validGrowthRates holeHeap holeWindows = Inl TypeError"
  unfolding validGrowthRates_def hole_rates validRates_def
  by (simp add: withPartOfYear_def evals holeWindows_def holeHeap_def holeDates_def yearInMs_def)

text \<open>
  C4 does not hold of the code: a window with fewer than 2 records has the rate \<open>NaN\<close>
  and its rate is filtered out, but the window is not excluded from the aggregation. The
  weight of the rate at position \<open>index\<close> of the filtered list is read from
  \<open>windows[index]\<close>, so the slot of a dropped window is still visited. On the series with
  dates at 0, 1/4, 3/2 and 7/4 years, the second of the four windows is empty; its rate
  is \<open>NaN\<close> and the three other windows are retained with the rates 5, 2 and 2, whose
  time-weighted average less 1 is 2. The estimator pairs the second retained rate with
  the empty window, reads the date of its last record, and raises a \<open>TypeError\<close>.
\<close>

theorem dropped_window_still_read:
  "mergedData holeDates gapValues gapTimestamps = (holeHeap, gapItems)
   \<and> getWindows eng holeHeap (Arr gapItems) (Num yearInMs) (Num (js_div yearInMs (Fin 2)))
        = Inr holeWindows
   \<and> growthRates holeHeap holeWindows = [Fin 5, NaN, Fin 2, Fin 2]
   \<and> retainedWindows holeHeap holeWindows = [[Ref 4, Ref 5], [Ref 6, Ref 7], [Ref 6, Ref 7]]
   \<and> timeWeightedAverage holeHeap holeWindows = Fin 2
   \<and> getLinearRegressionCAGR eng holeDates (Arr gapValues) (Arr gapTimestamps) = Inl TypeError"
proof -
  have retained: "retainedWindows holeHeap holeWindows = [[Ref 4, Ref 5], [Ref 6, Ref 7], [Ref 6, Ref 7]]"
    using hole_rates by (simp add: retainedWindows_def growthRates_def holeWindows_def)
  have rates: "growthRate holeHeap [Ref 4, Ref 5] = Fin 5" "growthRate holeHeap [Ref 6, Ref 7] = Fin 2"
    using hole_rates by (simp_all add: growthRates_def holeWindows_def)
  have fractions: "map (fractionOfYear holeHeap) [[Ref 4, Ref 5], [Ref 6, Ref 7], [Ref 6, Ref 7]]
        = [Fin (1 / 4), Fin (1 / 4), Fin (1 / 4)]"
    by (simp add: fractionOfYear_def evals holeHeap_def holeDates_def yearInMs_def)
  have spec: "timeWeightedAverage holeHeap holeWindows = Fin 2"
    unfolding timeWeightedAverage_def retained
    using fractions by (simp add: rates js_sum_def evals)
  have code: "getLinearRegressionCAGR eng holeDates (Arr gapValues) (Arr gapTimestamps) = Inl TypeError"
    unfolding getLinearRegressionCAGR_def
    by (simp add: ensureArray_def hole_merged hole_windows hole_samples)
       (simp add: gapValues_def gapTimestamps_def)
  show ?thesis
    using code hole_merged hole_windows hole_rates retained spec by simp
qed

text \<open>
  C1 does not hold of the code. The weight of the rate at position \<open>index\<close> of the
  filtered list is read from \<open>windows[index]\<close>, the window at that position of the
  unfiltered list. On the series below the second window holds one record and is
  dropped; the rates of the third and fourth window are then weighted with the spans of
  the second and third (0 and 1/4 instead of 1/4 and 1/4). The estimator returns the
  double nearest to \<open>(2 * 1/2 + 1 * 0 + 1 * 1/4) / (3/4) = 5/3\<close>, while the time-weighted
  average over the retained windows is \<open>(2 * 1/2 + 1 * 1/4 + 1 * 1/4) / 1 = 3/2\<close>.
\<close>

theorem weights_misaligned:
  "getLinearRegressionCAGR eng gapDates (Arr gapValues) (Arr gapTimestamps)
        = Inr (Fin (7505999378950827 / 4503599627370496))
   \<and> binary64 (5 / 3) = Fin (7505999378950827 / 4503599627370496)
   \<and> mergedData gapDates gapValues gapTimestamps = (gapHeap, gapItems)
   \<and> getWindows eng gapHeap (Arr gapItems) (Num yearInMs) (Num (js_div yearInMs (Fin 2)))
        = Inr gapWindows
   \<and> retainedWindows gapHeap gapWindows = [[Ref 4, Ref 5], [Ref 6, Ref 7], [Ref 6, Ref 7]]
   \<and> map (fractionOfYear gapHeap) (retainedWindows gapHeap gapWindows)
        = [Fin (1 / 2), Fin (1 / 4), Fin (1 / 4)]
   \<and> timeWeightedAverage gapHeap gapWindows = Fin (3 / 2)"
proof -
  have retained: "retainedWindows gapHeap gapWindows = [[Ref 4, Ref 5], [Ref 6, Ref 7], [Ref 6, Ref 7]]"
    using gap_rates by (simp add: retainedWindows_def growthRates_def gapWindows_def)
  have rates: "growthRate gapHeap [Ref 4, Ref 5] = Fin 3" "growthRate gapHeap [Ref 6, Ref 7] = Fin 2"
    using gap_rates by (simp_all add: growthRates_def gapWindows_def)
  have fractions: "map (fractionOfYear gapHeap) [[Ref 4, Ref 5], [Ref 6, Ref 7], [Ref 6, Ref 7]]
        = [Fin (1 / 2), Fin (1 / 4), Fin (1 / 4)]"
    by (simp add: fractionOfYear_def evals gapHeap_def gapDates_def yearInMs_def)
  have spec: "timeWeightedAverage gapHeap gapWindows = Fin (3 / 2)"
    unfolding timeWeightedAverage_def retained
    using fractions by (simp add: rates js_sum_def evals)
  have code: "getLinearRegressionCAGR eng gapDates (Arr gapValues) (Arr gapTimestamps)
      = Inr (Fin (7505999378950827 / 4503599627370496))"
    unfolding getLinearRegressionCAGR_def
    by (simp add: ensureArray_def gap_merged gap_windows gap_samples average_def binary64_int
          binary64_dyadic five_thirds)
       (simp add: gapValues_def gapTimestamps_def)
  show ?thesis
    using code five_thirds gap_merged gap_windows retained fractions spec by simp
qed

end
